theory Spec2Isabelle
  imports Complex_Main "HOL-Library.AList"
begin

section \<open>Fleet management server: registry, liveness sweep, fan-out and dispatch\<close>

text \<open>
  A shallow embedding of \<^verbatim>\<open>src/server/main.py\<close>. The server keeps one
  \<^verbatim>\<open>RobotStateManager\<close> (a dict of robot records, a list of websocket
  observers and one \<^verbatim>\<open>asyncio.Lock\<close>) and a module-level zenoh session.

  Conventions of the model:
  \<^item> Values decoded by \<^verbatim>\<open>json.loads\<close> are terms of the datatype \<open>json\<close>. JSON
    numbers and clock readings (\<^verbatim>\<open>time.time()\<close>) are exact reals; Python's
    \<^verbatim>\<open>int\<close> and \<^verbatim>\<open>float\<close> compare by value, and NaN and the infinities
    are outside the model.
  \<^item> The fields of a record hold whatever was assigned to them: the pydantic model has
    no \<^verbatim>\<open>validate_assignment\<close>, so \<^verbatim>\<open>robot.battery = data\<close> stores any
    decoded payload. \<open>pose\<close>, \<open>battery\<close> and \<open>status\<close> are therefore \<open>json\<close>.
  \<^item> A Python dict is an association list in insertion order with distinct keys;
    \<open>AList.update\<close> overwrites in place and appends a new key at the end, as the dict does.
  \<^item> A websocket is identified by a number (Starlette compares connections by identity).
    Whether \<^verbatim>\<open>send_text\<close> raises is the environment's choice: the sockets listed in
    \<open>closed\<close> raise, the others deliver, and every delivery is logged in \<open>sent\<close>.
  \<^item> \<^verbatim>\<open>zenoh_session.put\<close> is logged in \<open>put\<close>; the payload is kept as the
    value handed to \<^verbatim>\<open>json.dumps\<close>.
  \<^item> Every \<^verbatim>\<open>time.time()\<close> reading is a parameter of the operation that reads it.
  \<^item> \<open>robot_id\<close> names the field of the record, so a parameter or variable that the
    source calls \<^verbatim>\<open>robot_id\<close> is \<open>rid\<close> here.
  \<^item> \<^verbatim>\<open>async with self.lock\<close> on a free lock takes it; on a taken lock the task
    waits. \<^verbatim>\<open>asyncio.Lock\<close> is not re-entrant, so a task that waits for the lock
    it holds itself waits forever. An operation is run alone from the state it is given;
    waiting for the lock is the result \<open>Blocks\<close>, together with the state at that moment.
\<close>

subsection \<open>Data model\<close>

datatype json =
    JNull
  | JBool bool
  | JNum real
  | JStr string
  | JList "json list"
  | JDict "(string \<times> json) list"

text \<open>\<^verbatim>\<open>class RobotState(BaseModel)\<close>, with its defaults.\<close>

record RobotState =
  robot_id :: string
  pose :: json
  battery :: json
  status :: json
  last_seen :: real
  custom_state :: "(string \<times> json) list"

definition new_RobotState :: "string \<Rightarrow> RobotState" where
  "new_RobotState rid =
     \<lparr>robot_id = rid, pose = JDict [], battery = JNum 0, status = JStr ''OFFLINE'',
      last_seen = 0, custom_state = []\<rparr>"

type_synonym websocket = nat

datatype Priority = REAL_TIME | NORMAL | DEFAULT

text \<open>One call of \<^verbatim>\<open>zenoh_session.put(key, payload, priority=..., reliability=RELIABLE)\<close>.\<close>

record zenoh_put =
  put_key :: string
  put_payload :: json
  put_priority :: Priority

text \<open>
  The state of the process: the fields of \<^verbatim>\<open>state_manager\<close>, whether the global
  \<^verbatim>\<open>zenoh_session\<close> is set, and the environment (sockets whose send raises, the
  texts delivered to observers, the messages put on the bus).
\<close>

record server =
  robot_states :: "(string \<times> RobotState) list"
  websocket_connections :: "websocket list"
  lock :: bool
  zenoh_session :: bool
  closed :: "websocket list"
  sent :: "(websocket \<times> json) list"
  put :: "zenoh_put list"

text \<open>\<^verbatim>\<open>RobotStateManager.__init__\<close>, with \<^verbatim>\<open>zenoh_session = None\<close>.\<close>

definition init_server :: server where
  "init_server =
     \<lparr>robot_states = [], websocket_connections = [], lock = False, zenoh_session = False,
      closed = [], sent = [], put = []\<rparr>"

text \<open>
  The source's two messages are Chinese text; here they are constructors. \<open>Robot_not_found\<close>
  is the detail of the 404 ("the robot does not exist"), \<open>Robot_unavailable rid\<close> the detail
  of the 503 ("the specified robot rid is unavailable (offline or battery too low)").
\<close>

datatype detail = Robot_not_found | Robot_unavailable string

datatype exn = HTTPException nat detail | TypeError

datatype 'a result = Returns 'a | Raises exn | Blocks

subsection \<open>Fan-out to the observers\<close>

text \<open>
  \<^verbatim>\<open>remove_connection\<close>: takes the lock, removes the first occurrence of the socket if
  there is one, releases the lock.
\<close>

definition remove_connection :: "websocket \<Rightarrow> server \<Rightarrow> unit result \<times> server" where
  "remove_connection w s =
     (if lock s then (Blocks, s)
      else (Returns (), s\<lparr>websocket_connections := remove1 w (websocket_connections s)\<rparr>))"

text \<open>\<^verbatim>\<open>add_connection\<close>.\<close>

definition add_connection :: "websocket \<Rightarrow> server \<Rightarrow> unit result \<times> server" where
  "add_connection w s =
     (if lock s then (Blocks, s)
      else (Returns (), s\<lparr>websocket_connections := websocket_connections s @ [w]\<rparr>))"

text \<open>
  The loop \<^verbatim>\<open>for connection in self.websocket_connections\<close> of
  \<^verbatim>\<open>broadcast_update\<close>. A Python list iterator is an index into the live list: it
  stops when the index reaches the current length, so a removal during the loop shifts the
  elements under it.
\<close>

function broadcast_loop :: "json \<Rightarrow> nat \<Rightarrow> server \<Rightarrow> unit result \<times> server" where
  "broadcast_loop update_msg i s =
     (if i < length (websocket_connections s) then
        (let connection = websocket_connections s ! i in
         if connection \<in> set (closed s) then
           (case remove_connection connection s of
              (Returns u, s') \<Rightarrow> broadcast_loop update_msg (Suc i) s'
            | (r, s') \<Rightarrow> (r, s'))
         else broadcast_loop update_msg (Suc i) (s\<lparr>sent := sent s @ [(connection, update_msg)]\<rparr>))
      else (Returns (), s))"
  by pat_completeness auto
termination
  apply (relation "measure (\<lambda>(m, i, s). length (websocket_connections s) - i)")
    apply simp
   apply (auto simp: remove_connection_def length_remove1 split: if_splits)
  done

text \<open>
  \<^verbatim>\<open>broadcast_update\<close>: the envelope is built once (\<open>ts\<close> is the clock reading
  for its timestamp), then sent to each observer in turn. A send that raises is caught
  and followed by \<^verbatim>\<open>remove_connection\<close>.
\<close>

definition state_update_msg :: "string \<Rightarrow> string \<Rightarrow> json \<Rightarrow> real \<Rightarrow> json" where
  "state_update_msg rid state_type data ts =
     JDict [(''msg_type'', JStr ''state_update''), (''robot_id'', JStr rid),
            (''state_type'', JStr state_type), (''data'', data), (''timestamp'', JNum ts)]"

definition broadcast_update ::
  "string \<Rightarrow> string \<Rightarrow> json \<Rightarrow> real \<Rightarrow> server \<Rightarrow> unit result \<times> server" where
  "broadcast_update rid state_type data ts s =
     broadcast_loop (state_update_msg rid state_type data ts) 0 s"

subsection \<open>Registry updates\<close>

text \<open>
  The assignments of \<^verbatim>\<open>update_robot_state\<close> to the robot's record, lines 86 to 96:
  \<open>last_seen\<close> and \<open>status\<close> first, then the field chosen by the category.
\<close>

definition apply_state :: "string \<Rightarrow> json \<Rightarrow> real \<Rightarrow> RobotState \<Rightarrow> RobotState" where
  "apply_state state_type data now robot =
     (let robot = robot\<lparr>last_seen := now, status := JStr ''ONLINE''\<rparr> in
      if state_type = ''pose'' then robot\<lparr>pose := data\<rparr>
      else if state_type = ''battery'' then robot\<lparr>battery := data\<rparr>
      else if state_type = ''status'' then robot\<lparr>status := data\<rparr>
      else robot\<lparr>custom_state := AList.update state_type data (custom_state robot)\<rparr>)"

text \<open>
  \<^verbatim>\<open>update_robot_state\<close>: under the lock, create the record if the id is new, apply
  the update, then broadcast it. \<open>now\<close> is the clock reading stored in \<open>last_seen\<close>,
  \<open>ts\<close> the one put into the envelope. The broadcast runs while the lock is held.
\<close>

definition update_robot_state ::
  "string \<Rightarrow> string \<Rightarrow> json \<Rightarrow> real \<Rightarrow> real \<Rightarrow> server \<Rightarrow> unit result \<times> server" where
  "update_robot_state rid state_type data now ts s =
     (if lock s then (Blocks, s)
      else
        (let s = s\<lparr>lock := True\<rparr>;
             robot = (case map_of (robot_states s) rid of
                        None \<Rightarrow> new_RobotState rid
                      | Some robot \<Rightarrow> robot);
             s = s\<lparr>robot_states :=
                     AList.update rid (apply_state state_type data now robot) (robot_states s)\<rparr>
         in case broadcast_update rid state_type data ts s of
              (Returns u, s') \<Rightarrow> (Returns (), s'\<lparr>lock := False\<rparr>)
            | (Raises e, s') \<Rightarrow> (Raises e, s'\<lparr>lock := False\<rparr>)
            | (Blocks, s') \<Rightarrow> (Blocks, s')))"

subsection \<open>Publishing on the bus\<close>

text \<open>\<^verbatim>\<open>zenoh_publish\<close>: nothing happens while the session is \<^verbatim>\<open>None\<close>.\<close>

definition zenoh_publish :: "string \<Rightarrow> json \<Rightarrow> Priority \<Rightarrow> server \<Rightarrow> server" where
  "zenoh_publish key data priority s =
     (if \<not> zenoh_session s then s
      else s\<lparr>put := put s @ [\<lparr>put_key = key, put_payload = data, put_priority = priority\<rparr>]\<rparr>)"

subsection \<open>Liveness sweep\<close>

text \<open>
  The loop over \<^verbatim>\<open>self.robot_states.items()\<close> inside one iteration of
  \<^verbatim>\<open>check_offline_robots\<close>. The lock is held, so the keys do not change while it
  runs; each key's record is read where it is visited. \<open>offline_robots\<close> accumulates the
  ids that were switched.
\<close>

fun offline_loop ::
  "real \<Rightarrow> real \<Rightarrow> real \<Rightarrow> string list \<Rightarrow> string list \<Rightarrow> server
     \<Rightarrow> string list result \<times> server" where
  "offline_loop current_time threshold ts [] offline_robots s = (Returns offline_robots, s)"
| "offline_loop current_time threshold ts (rid # rest) offline_robots s =
     (case map_of (robot_states s) rid of
        None \<Rightarrow> offline_loop current_time threshold ts rest offline_robots s
      | Some robot \<Rightarrow>
          if current_time - last_seen robot > threshold \<and> status robot \<noteq> JStr ''OFFLINE'' then
            (case broadcast_update rid ''status'' (JStr ''OFFLINE'') ts
                    (s\<lparr>robot_states :=
                         AList.update rid (robot\<lparr>status := JStr ''OFFLINE''\<rparr>) (robot_states s)\<rparr>) of
               (Returns u, s') \<Rightarrow>
                  offline_loop current_time threshold ts rest (offline_robots @ [rid]) s'
             | (Raises e, s') \<Rightarrow> (Raises e, s')
             | (Blocks, s') \<Rightarrow> (Blocks, s'))
          else offline_loop current_time threshold ts rest offline_robots s)"

text \<open>The loop that publishes one \<^verbatim>\<open>robot_offline\<close> event per switched robot.\<close>

definition robot_offline_event :: "string \<Rightarrow> real \<Rightarrow> json" where
  "robot_offline_event rid current_time =
     JDict [(''robot_id'', JStr rid), (''timestamp'', JNum current_time)]"

fun publish_offline :: "real \<Rightarrow> string list \<Rightarrow> server \<Rightarrow> server" where
  "publish_offline current_time [] s = s"
| "publish_offline current_time (rid # rest) s =
     publish_offline current_time rest
       (zenoh_publish ''fms/system/event/robot_offline''
          (robot_offline_event rid current_time) DEFAULT s)"

text \<open>
  One iteration of the \<^verbatim>\<open>while True\<close> of \<^verbatim>\<open>check_offline_robots\<close>, up to its
  \<^verbatim>\<open>asyncio.sleep(1)\<close>. \<open>current_time\<close> is the reading taken at the top of the
  iteration and \<open>ts\<close> the reading used for the envelopes of this pass.
\<close>

definition sweep :: "real \<Rightarrow> real \<Rightarrow> real \<Rightarrow> server \<Rightarrow> unit result \<times> server" where
  "sweep threshold current_time ts s =
     (if lock s then (Blocks, s)
      else
        (case offline_loop current_time threshold ts (map fst (robot_states s)) []
                (s\<lparr>lock := True\<rparr>) of
           (Returns offline_robots, s') \<Rightarrow>
              (Returns (), publish_offline current_time offline_robots (s'\<lparr>lock := False\<rparr>))
         | (Raises e, s') \<Rightarrow> (Raises e, s'\<lparr>lock := False\<rparr>)
         | (Blocks, s') \<Rightarrow> (Blocks, s')))"

text \<open>
  \<^verbatim>\<open>check_offline_robots\<close> never returns. Its first iterations are run here, one
  per pair of clock readings in the list; an iteration that waits forever ends the run.
\<close>

fun check_offline_robots :: "real \<Rightarrow> (real \<times> real) list \<Rightarrow> server \<Rightarrow> unit result \<times> server" where
  "check_offline_robots threshold [] s = (Returns (), s)"
| "check_offline_robots threshold ((current_time, ts) # readings) s =
     (case sweep threshold current_time ts s of
        (Returns u, s') \<Rightarrow> check_offline_robots threshold readings s'
      | (r, s') \<Rightarrow> (r, s'))"

subsection \<open>Ingest from the bus\<close>

text \<open>\<^verbatim>\<open>str.split(sep)\<close> for a one-character separator, and \<^verbatim>\<open>sep.join\<close>.\<close>

fun split :: "char \<Rightarrow> string \<Rightarrow> string list" where
  "split sep [] = [[]]"
| "split sep (c # cs) =
     (if c = sep then [] # split sep cs
      else (case split sep cs of
              [] \<Rightarrow> [[c]]
            | part # parts \<Rightarrow> (c # part) # parts))"

fun join :: "char \<Rightarrow> string list \<Rightarrow> string" where
  "join sep [] = []"
| "join sep [part] = part"
| "join sep (part # parts) = part @ sep # join sep parts"

text \<open>The key expression handed to \<^verbatim>\<open>session.subscribe\<close>.\<close>

definition state_subscription :: string where
  "state_subscription = ''fms/robot/*/state/**''"

text \<open>
  The first half of \<^verbatim>\<open>callback\<close>: the key is split at the slashes and dropped
  unless it reads \<^verbatim>\<open>fms/robot/{robot_id}/state/{state_type}\<close>; the state type is
  everything after the fourth slash.
\<close>

definition parse_key :: "string \<Rightarrow> (string \<times> string) option" where
  "parse_key key_expr =
     (let key_parts = split CHR ''/'' key_expr in
      if length key_parts < 5 \<or> key_parts ! 0 \<noteq> ''fms'' \<or> key_parts ! 1 \<noteq> ''robot''
           \<or> key_parts ! 3 \<noteq> ''state''
      then None
      else Some (key_parts ! 2, join CHR ''/'' (drop 4 key_parts)))"

text \<open>
  \<^verbatim>\<open>callback\<close>. The payload is given as the outcome of \<^verbatim>\<open>json.loads\<close>:
  \<open>None\<close> is a \<^verbatim>\<open>JSONDecodeError\<close>, which is printed and dropped.
\<close>

definition callback ::
  "string \<Rightarrow> json option \<Rightarrow> real \<Rightarrow> real \<Rightarrow> server \<Rightarrow> unit result \<times> server" where
  "callback key_expr payload now ts s =
     (case parse_key key_expr of
        None \<Rightarrow> (Returns (), s)
      | Some (rid, state_type) \<Rightarrow>
          (case payload of
             None \<Rightarrow> (Returns (), s)
           | Some data \<Rightarrow> update_robot_state rid state_type data now ts s))"

subsection \<open>HTTP handlers\<close>

text \<open>\<^verbatim>\<open>class TaskRequest(BaseModel)\<close> and \<^verbatim>\<open>class TaskResponse(BaseModel)\<close>.\<close>

record TaskRequest =
  req_robot_id :: string
  req_target_position :: "(string \<times> real) list"
  req_priority :: string

record TaskResponse =
  resp_task_id :: string
  resp_robot_id :: string
  resp_status :: string

text \<open>
  \<^verbatim>\<open>robot.battery > 20.0\<close> on whatever the field holds: numbers compare, a bool is
  the integer 0 or 1, and \<^verbatim>\<open>None\<close>, a string, a list or a dict against a float
  raise \<^verbatim>\<open>TypeError\<close>.
\<close>

fun gt_float :: "json \<Rightarrow> real \<Rightarrow> bool result" where
  "gt_float (JNum x) y = Returns (x > y)"
| "gt_float (JBool b) y = Returns ((if b then 1 else 0) > y)"
| "gt_float v y = Raises TypeError"

text \<open>
  \<^verbatim>\<open>schedule_robot\<close>. A record is always truthy; \<^verbatim>\<open>and\<close> evaluates its
  operands from left to right and stops at the first false one, so the battery is only
  compared when the status is \<^verbatim>\<open>"ONLINE"\<close>. The lock is released on the way out,
  also when the comparison raises.
\<close>

definition schedule_robot :: "TaskRequest \<Rightarrow> server \<Rightarrow> string option result \<times> server" where
  "schedule_robot task s =
     (if lock s then (Blocks, s)
      else
        (case map_of (robot_states s) (req_robot_id task) of
           None \<Rightarrow> (Returns None, s)
         | Some robot \<Rightarrow>
             if status robot = JStr ''ONLINE'' then
               (case gt_float (battery robot) 20 of
                  Returns b \<Rightarrow> (Returns (if b then Some (req_robot_id task) else None), s)
                | Raises e \<Rightarrow> (Raises e, s)
                | Blocks \<Rightarrow> (Blocks, s))
             else (Returns None, s)))"

text \<open>\<^verbatim>\<open>get_all_robots\<close> and \<^verbatim>\<open>get_robot\<close>.\<close>

definition get_all_robots :: "server \<Rightarrow> RobotState list result \<times> server" where
  "get_all_robots s =
     (if lock s then (Blocks, s) else (Returns (map snd (robot_states s)), s))"

definition get_robot :: "string \<Rightarrow> server \<Rightarrow> RobotState result \<times> server" where
  "get_robot rid s =
     (if lock s then (Blocks, s)
      else
        (case map_of (robot_states s) rid of
           None \<Rightarrow> (Raises (HTTPException 404 Robot_not_found), s)
         | Some robot \<Rightarrow> (Returns robot, s)))"

text \<open>
  \<^verbatim>\<open>str(n)\<close> for an integer, and \<^verbatim>\<open>int(x)\<close> for a float (truncation
  towards zero).
\<close>

definition digit :: "nat \<Rightarrow> char" where
  "digit d = ''0123456789'' ! (d mod 10)"

function str_nat :: "nat \<Rightarrow> string" where
  "str_nat n = (if n < 10 then [digit n] else str_nat (n div 10) @ [digit (n mod 10)])"
  by pat_completeness auto
termination
  by (relation "measure id") auto

definition str_int :: "int \<Rightarrow> string" where
  "str_int i = (if i < 0 then CHR ''-'' # str_nat (nat (- i)) else str_nat (nat i))"

definition int_of_float :: "real \<Rightarrow> int" where
  "int_of_float x = (if 0 \<le> x then \<lfloor>x\<rfloor> else \<lceil>x\<rceil>)"

text \<open>The task identifier: \<^verbatim>\<open>f"task_{int(time.time())}"\<close>.\<close>

definition task_id_at :: "real \<Rightarrow> string" where
  "task_id_at now = ''task_'' @ str_int (int_of_float now)"

text \<open>
  \<^verbatim>\<open>create_task\<close>. \<open>now\<close> is the clock reading the identifier is made from, \<open>ts\<close>
  the one put into the command; \<open>chosen\<close> is what \<^verbatim>\<open>schedule_robot\<close> returned
  (the source's \<^verbatim>\<open>robot_id\<close>). \<^verbatim>\<open>not robot_id\<close> holds for \<^verbatim>\<open>None\<close> and for
  the empty string.
\<close>

definition create_task ::
  "TaskRequest \<Rightarrow> real \<Rightarrow> real \<Rightarrow> server \<Rightarrow> TaskResponse result \<times> server" where
  "create_task task now ts s =
     (case schedule_robot task s of
        (Blocks, s') \<Rightarrow> (Blocks, s')
      | (Raises e, s') \<Rightarrow> (Raises e, s')
      | (Returns chosen, s') \<Rightarrow>
          if chosen = None \<or> chosen = Some [] then
            (Raises (HTTPException 503 (Robot_unavailable (req_robot_id task))), s')
          else
            (let rid = (case chosen of Some r \<Rightarrow> r | None \<Rightarrow> []);
                 task_id = task_id_at now;
                 task_data =
                   JDict [(''task_id'', JStr task_id),
                          (''target_position'',
                             JDict (map (\<lambda>(k, v). (k, JNum v)) (req_target_position task))),
                          (''priority'', JStr (req_priority task)),
                          (''timestamp'', JNum ts)];
                 priority = (if req_priority task = ''high'' then REAL_TIME else NORMAL)
             in (Returns \<lparr>resp_task_id = task_id, resp_robot_id = rid,
                          resp_status = ''scheduled''\<rparr>,
                 zenoh_publish (''fms/robot/'' @ rid @ ''/cmd/task'') task_data priority s')))"

text \<open>\<^verbatim>\<open>cancel_task\<close>. The lock covers the membership test only.\<close>

definition cancel_data :: "real \<Rightarrow> json" where
  "cancel_data now = JDict [(''timestamp'', JNum now), (''reason'', JStr ''user_request'')]"

definition cancel_task :: "string \<Rightarrow> real \<Rightarrow> server \<Rightarrow> json result \<times> server" where
  "cancel_task rid now s =
     (if lock s then (Blocks, s)
      else if map_of (robot_states s) rid = None then
        (Raises (HTTPException 404 Robot_not_found), s)
      else
        (Returns (JDict [(''status'', JStr ''cancel command sent'')]),
         zenoh_publish (''fms/robot/'' @ rid @ ''/cmd/cancel'') (cancel_data now) REAL_TIME s))"

subsection \<open>Runs of the server\<close>

text \<open>
  What the two background tasks do to the state, one event at a time: the ingest applies
  an update, the liveness task runs one iteration of its loop. A run ends early at an event
  that waits forever.
\<close>

datatype event =
    Update string string json real real
  | Sweep real real real

fun step :: "event \<Rightarrow> server \<Rightarrow> unit result \<times> server" where
  "step (Update rid state_type data now ts) s = update_robot_state rid state_type data now ts s"
| "step (Sweep threshold current_time ts) s = sweep threshold current_time ts s"

fun run :: "event list \<Rightarrow> server \<Rightarrow> unit result \<times> server" where
  "run [] s = (Returns (), s)"
| "run (e # es) s =
     (case step e s of
        (Returns u, s') \<Rightarrow> run es s'
      | (r, s') \<Rightarrow> (r, s'))"

text \<open>Whether an event is a battery report of the given robot.\<close>

fun battery_report :: "string \<Rightarrow> event \<Rightarrow> bool" where
  "battery_report rid (Update rid' state_type data now ts) =
     (rid' = rid \<and> state_type = ''battery'')"
| "battery_report rid (Sweep threshold current_time ts) = False"

subsection \<open>What a sweep computes\<close>

text \<open>
  The condition of line 133, and what one iteration does to a record, as functions of the
  record; they are used to state what a sweep computes.
\<close>

definition silent :: "real \<Rightarrow> real \<Rightarrow> RobotState \<Rightarrow> bool" where
  "silent threshold current_time robot \<longleftrightarrow>
     current_time - last_seen robot > threshold \<and> status robot \<noteq> JStr ''OFFLINE''"

definition swept :: "real \<Rightarrow> real \<Rightarrow> RobotState \<Rightarrow> RobotState" where
  "swept threshold current_time robot =
     (if silent threshold current_time robot then robot\<lparr>status := JStr ''OFFLINE''\<rparr> else robot)"

definition switched :: "real \<Rightarrow> real \<Rightarrow> (string \<times> RobotState) list \<Rightarrow> string list" where
  "switched threshold current_time rs =
     map fst (filter (\<lambda>(rid, robot). silent threshold current_time robot) rs)"

definition offline_broadcasts :: "real \<Rightarrow> websocket list \<Rightarrow> string list \<Rightarrow> (websocket \<times> json) list" where
  "offline_broadcasts ts observers rids =
     concat (map (\<lambda>rid. map (\<lambda>c. (c, state_update_msg rid ''status'' (JStr ''OFFLINE'') ts))
                           observers) rids)"

definition offline_put :: "real \<Rightarrow> string \<Rightarrow> zenoh_put" where
  "offline_put current_time rid =
     \<lparr>put_key = ''fms/system/event/robot_offline'',
      put_payload = JDict [(''robot_id'', JStr rid), (''timestamp'', JNum current_time)],
      put_priority = DEFAULT\<rparr>"

subsection \<open>Counters on the logs\<close>

text \<open>
  The robot a bus message announces as offline, if it is a \<^verbatim>\<open>robot_offline\<close> event,
  and the robot an envelope reports as switched to \<^verbatim>\<open>"OFFLINE"\<close>, if it is such an
  envelope; with them, the number of events on the bus for a robot and the number of
  offline envelopes an observer was sent for it.
\<close>

definition offline_event_robot :: "zenoh_put \<Rightarrow> string option" where
  "offline_event_robot p =
     (if put_key p = ''fms/system/event/robot_offline'' then
        (case put_payload p of
           JDict kvs \<Rightarrow> (case map_of kvs ''robot_id'' of Some (JStr rid) \<Rightarrow> Some rid | _ \<Rightarrow> None)
         | _ \<Rightarrow> None)
      else None)"

definition offline_events :: "string \<Rightarrow> server \<Rightarrow> nat" where
  "offline_events rid s = count_list (map offline_event_robot (put s)) (Some rid)"

definition offline_envelope_robot :: "json \<Rightarrow> string option" where
  "offline_envelope_robot m =
     (case m of
        JDict kvs \<Rightarrow>
          (if map_of kvs ''state_type'' = Some (JStr ''status'')
                \<and> map_of kvs ''data'' = Some (JStr ''OFFLINE'')
           then (case map_of kvs ''robot_id'' of Some (JStr rid) \<Rightarrow> Some rid | _ \<Rightarrow> None)
           else None)
      | _ \<Rightarrow> None)"

definition offline_envelopes :: "websocket \<Rightarrow> string \<Rightarrow> server \<Rightarrow> nat" where
  "offline_envelopes c rid s =
     count_list (map (\<lambda>(c', m). (c', offline_envelope_robot m)) (sent s)) (c, Some rid)"

subsection \<open>Scenarios\<close>

text \<open>Concrete states, requests and runs at which the theorems below are evaluated.\<close>

text \<open>
  Robot \<^verbatim>\<open>r1\<close> is known, marked \<^verbatim>\<open>"OFFLINE"\<close> and nearly empty; no other
  robot is known.
\<close>

definition known_r1 :: server where
  "known_r1 =
     \<lparr>robot_states =
        [(''r1'', \<lparr>robot_id = ''r1'', pose = JDict [], battery = JNum 3,
                   status = JStr ''OFFLINE'', last_seen = 1, custom_state = []\<rparr>)],
      websocket_connections = [], lock = False, zenoh_session = True,
      closed = [], sent = [], put = []\<rparr>"

text \<open>Robot \<^verbatim>\<open>r1\<close> is \<^verbatim>\<open>"ONLINE"\<close> with battery 80, and a request for it.\<close>

definition charged_r1 :: server where
  "charged_r1 =
     \<lparr>robot_states =
        [(''r1'', \<lparr>robot_id = ''r1'', pose = JDict [], battery = JNum 80,
                   status = JStr ''ONLINE'', last_seen = 99, custom_state = []\<rparr>)],
      websocket_connections = [], lock = False, zenoh_session = True,
      closed = [], sent = [], put = []\<rparr>"

definition to_r1 :: TaskRequest where
  "to_r1 = \<lparr>req_robot_id = ''r1'', req_target_position = [(''x'', 1), (''y'', 2)],
            req_priority = ''normal''\<rparr>"

text \<open>
  Reports of \<^verbatim>\<open>r1\<close> and \<^verbatim>\<open>r2\<close> with a sweep in between; \<^verbatim>\<open>r1\<close> never
  reports its battery.
\<close>

definition quiet_run :: "event list" where
  "quiet_run =
     [Update ''r1'' ''pose'' (JDict [(''x'', JNum 1)]) 1 1,
      Sweep 5 2 2,
      Update ''r2'' ''battery'' (JNum 90) 3 3,
      Update ''r1'' ''load'' (JNum 4) 4 4]"

text \<open>
  Two observers are registered and the peer of the first has gone away, which the server
  only learns at its next send.
\<close>

definition first_observer_closed :: server where
  "first_observer_closed =
     \<lparr>robot_states = [], websocket_connections = [1, 2], lock = False, zenoh_session = True,
      closed = [1], sent = [], put = []\<rparr>"

text \<open>Robot \<^verbatim>\<open>r2\<close> was last seen at time 0 and is \<^verbatim>\<open>"ONLINE"\<close>; nobody observes.\<close>

definition silent_r2 :: server where
  "silent_r2 =
     \<lparr>robot_states =
        [(''r2'', \<lparr>robot_id = ''r2'', pose = JDict [], battery = JNum 50,
                   status = JStr ''ONLINE'', last_seen = 0, custom_state = []\<rparr>)],
      websocket_connections = [], lock = False, zenoh_session = True,
      closed = [], sent = [], put = []\<rparr>"

text \<open>The same registry with one observer, whose peer has gone away.\<close>

definition silent_r2_closed_observer :: server where
  "silent_r2_closed_observer = silent_r2\<lparr>websocket_connections := [1], closed := [1]\<rparr>"

section \<open>Properties\<close>

declare broadcast_loop.simps [simp del]

declare str_nat.simps [simp del]

subsection \<open>The fan-out leaves the registry, the lock and the bus alone\<close>

lemma remove_connection_frame:
  "remove_connection w s = (r, s') \<Longrightarrow>
     robot_states s' = robot_states s \<and> lock s' = lock s \<and> closed s' = closed s
     \<and> zenoh_session s' = zenoh_session s \<and> put s' = put s"
  by (auto simp: remove_connection_def split: if_splits)

lemma broadcast_loop_done:
  "\<not> i < length (websocket_connections s) \<Longrightarrow> broadcast_loop m i s = (Returns (), s)"
  by (subst broadcast_loop.simps) simp

lemma broadcast_loop_send:
  "i < length (websocket_connections s) \<Longrightarrow> websocket_connections s ! i \<notin> set (closed s) \<Longrightarrow>
     broadcast_loop m i s =
       broadcast_loop m (Suc i) (s\<lparr>sent := sent s @ [(websocket_connections s ! i, m)]\<rparr>)"
  by (subst broadcast_loop.simps) simp

lemma broadcast_loop_fail:
  "i < length (websocket_connections s) \<Longrightarrow> websocket_connections s ! i \<in> set (closed s) \<Longrightarrow>
     broadcast_loop m i s =
       (case remove_connection (websocket_connections s ! i) s of
          (Returns u, s') \<Rightarrow> broadcast_loop m (Suc i) s'
        | (r, s') \<Rightarrow> (r, s'))"
  by (subst broadcast_loop.simps) simp

lemma broadcast_loop_frame:
  "broadcast_loop m i s = (r, s') \<Longrightarrow>
     robot_states s' = robot_states s \<and> lock s' = lock s \<and> closed s' = closed s
     \<and> zenoh_session s' = zenoh_session s \<and> put s' = put s"
proof (induction m i s arbitrary: r s' rule: broadcast_loop.induct)
  case (1 m i s)
  show ?case
  proof (cases "i < length (websocket_connections s)")
    case False
    with "1.prems" show ?thesis by (simp add: broadcast_loop_done)
  next
    case True
    let ?c = "websocket_connections s ! i"
    show ?thesis
    proof (cases "?c \<in> set (closed s)")
      case False
      from "1.prems" have "broadcast_loop m (Suc i) (s\<lparr>sent := sent s @ [(?c, m)]\<rparr>) = (r, s')"
        by (simp add: broadcast_loop_send [OF True False])
      from "1.IH"(2) [OF True refl False this] show ?thesis by simp
    next
      case inset: True
      obtain r1 s1 where rc: "remove_connection ?c s = (r1, s1)" by (cases "remove_connection ?c s")
      note fr = remove_connection_frame [OF rc]
      show ?thesis
      proof (cases r1)
        case (Returns u)
        with rc "1.prems" have "broadcast_loop m (Suc i) s1 = (r, s')"
          by (simp add: broadcast_loop_fail [OF True inset])
        from "1.IH"(1) [OF True refl inset rc [symmetric] Returns this] fr show ?thesis
          by simp
      next
        case (Raises e)
        with rc "1.prems" fr show ?thesis by (simp add: broadcast_loop_fail [OF True inset])
      next
        case Blocks
        with rc "1.prems" fr show ?thesis by (simp add: broadcast_loop_fail [OF True inset])
      qed
    qed
  qed
qed

lemma update_robot_state_registry:
  "\<not> lock s \<Longrightarrow>
     robot_states (snd (update_robot_state rid st d now ts s)) =
       AList.update rid
         (apply_state st d now
            (case map_of (robot_states s) rid of None \<Rightarrow> new_RobotState rid | Some r \<Rightarrow> r))
         (robot_states s)"
  by (auto simp: update_robot_state_def Let_def broadcast_update_def
           split: prod.splits result.splits dest!: broadcast_loop_frame)

subsection \<open>What an applied update writes\<close>

lemma apply_state_status:
  "status (apply_state st d now r) = (if st = ''status'' then d else JStr ''ONLINE'')"
  by (simp add: apply_state_def Let_def)

lemma apply_state_last_seen: "last_seen (apply_state st d now r) = now"
  by (simp add: apply_state_def Let_def)

lemma apply_state_robot_id: "robot_id (apply_state st d now r) = robot_id r"
  by (simp add: apply_state_def Let_def)

lemma apply_state_battery:
  "battery (apply_state st d now r) = (if st = ''battery'' then d else battery r)"
  by (simp add: apply_state_def Let_def)

lemma apply_state_twice:
  "apply_state st d now' (apply_state st d now r) = apply_state st d now' r"
  by (simp add: apply_state_def Let_def)

lemma update_robot_state_lookup:
  "\<not> lock s \<Longrightarrow>
     map_of (robot_states (snd (update_robot_state rid st d now ts s))) rid =
       Some (apply_state st d now
               (case map_of (robot_states s) rid of None \<Rightarrow> new_RobotState rid | Some r \<Rightarrow> r))"
  by (simp add: update_robot_state_registry update_conv')

lemma update_robot_state_other:
  "rid' \<noteq> rid \<Longrightarrow>
     map_of (robot_states (snd (update_robot_state rid st d now ts s))) rid' =
       map_of (robot_states s) rid'"
  by (cases "lock s") (simp_all add: update_robot_state_registry update_conv',
                        simp add: update_robot_state_def)

lemma update_robot_state_Returns_unlocked:
  "update_robot_state rid st d now ts s = (Returns u, s') \<Longrightarrow> \<not> lock s \<and> \<not> lock s'"
  by (auto simp: update_robot_state_def Let_def split: if_splits prod.splits result.splits)

text \<open>
  C4, as the code has it. An update that is applied (the lock was free) leaves the robot's
  status at \<^verbatim>\<open>"ONLINE"\<close> for every category except \<^verbatim>\<open>"status"\<close>; for the
  category \<^verbatim>\<open>"status"\<close> the payload itself becomes the status.
\<close>

theorem update_robot_state_status:
  "\<not> lock s \<Longrightarrow>
     map_option status (map_of (robot_states (snd (update_robot_state rid st d now ts s))) rid) =
       Some (if st = ''status'' then d else JStr ''ONLINE'')"
  by (simp add: update_robot_state_lookup apply_state_status)

theorem update_robot_state_status_witness:
  "\<not> lock init_server \<and>
   map_option status
     (map_of (robot_states (snd (update_robot_state ''r1'' ''pose'' (JDict [(''x'', JNum 1)]) 10 10
                                   init_server))) ''r1'') = Some (JStr ''ONLINE'')"
  using update_robot_state_status [of init_server "''r1''" "''pose''" "JDict [(''x'', JNum 1)]" 10 10]
  by (simp add: init_server_def)

text \<open>
  C4 fails for the category \<^verbatim>\<open>"status"\<close>: the report the robot agent sends when it
  becomes idle is applied and the status is that report, not \<^verbatim>\<open>"ONLINE"\<close>.
\<close>

theorem update_robot_state_status_counterexample:
  "fst (update_robot_state ''r1'' ''status''
          (JDict [(''status'', JStr ''IDLE''), (''message'', JStr ''''), (''timestamp'', JNum 10)])
          10 10 init_server) = Returns ()
   \<and> map_option status
        (map_of (robot_states (snd (update_robot_state ''r1'' ''status''
           (JDict [(''status'', JStr ''IDLE''), (''message'', JStr ''''), (''timestamp'', JNum 10)])
           10 10 init_server))) ''r1'') \<noteq> Some (JStr ''ONLINE'')"
  by code_simp

text \<open>
  C5, as the code has it. The first update applied for an identifier the registry does not
  hold creates the record, with the identifier as its \<open>robot_id\<close> and the time of the
  update as its \<open>last_seen\<close>. Its status is \<^verbatim>\<open>"ONLINE"\<close> unless the update's category
  is \<^verbatim>\<open>"status"\<close>, in which case it is the payload.
\<close>

theorem update_robot_state_first:
  "\<not> lock s \<Longrightarrow> map_of (robot_states s) rid = None \<Longrightarrow>
     (\<exists>robot. map_of (robot_states (snd (update_robot_state rid st d now ts s))) rid = Some robot
        \<and> robot_id robot = rid \<and> last_seen robot = now
        \<and> status robot = (if st = ''status'' then d else JStr ''ONLINE''))"
  by (simp add: update_robot_state_lookup apply_state_status apply_state_last_seen
        apply_state_robot_id new_RobotState_def)

theorem update_robot_state_first_witness:
  "\<not> lock init_server \<and> map_of (robot_states init_server) ''r1'' = None \<and>
   (\<exists>robot. map_of (robot_states (snd (update_robot_state ''r1'' ''battery'' (JNum 80) 7 8
                                         init_server))) ''r1'' = Some robot
      \<and> robot_id robot = ''r1'' \<and> last_seen robot = 7 \<and> status robot = JStr ''ONLINE'')"
  using update_robot_state_first [of init_server "''r1''" "''battery''" "JNum 80" 7 8]
  by (simp add: init_server_def)

text \<open>
  C5 fails when the first update a robot sends is a status report: the record is created
  with that report as its status.
\<close>

theorem update_robot_state_first_counterexample:
  "map_of (robot_states init_server) ''r9'' = None
   \<and> fst (update_robot_state ''r9'' ''status'' (JStr ''IDLE'') 3 3 init_server) = Returns ()
   \<and> map_option status
        (map_of (robot_states (snd (update_robot_state ''r9'' ''status'' (JStr ''IDLE'') 3 3
                                      init_server))) ''r9'') = Some (JStr ''IDLE'')
   \<and> JStr ''IDLE'' \<noteq> JStr ''ONLINE''"
  by code_simp

text \<open>
  C6. When an update has been applied and has returned, applying the same category and
  value again leaves the registry exactly as a single application at the second clock
  reading leaves it: the first application has left no trace. When the clock shows the same
  time at both applications the registry does not change at all.
\<close>

theorem update_robot_state_idempotent:
  assumes "update_robot_state rid st d now ts s = (Returns (), s1)"
  shows "robot_states (snd (update_robot_state rid st d now' ts' s1)) =
           robot_states (snd (update_robot_state rid st d now' ts' s))
         \<and> robot_states (snd (update_robot_state rid st d now ts' s1)) = robot_states s1"
proof -
  from assms have free: "\<not> lock s" "\<not> lock s1"
    using update_robot_state_Returns_unlocked by blast+
  let ?r0 = "case map_of (robot_states s) rid of None \<Rightarrow> new_RobotState rid | Some r \<Rightarrow> r"
  from assms have reg1:
    "robot_states s1 = AList.update rid (apply_state st d now ?r0) (robot_states s)"
    using update_robot_state_registry [OF free(1), of rid st d now ts] by simp
  have twice: "robot_states (snd (update_robot_state rid st d t ts' s1)) =
                 AList.update rid (apply_state st d t ?r0) (robot_states s)" for t
    by (simp add: update_robot_state_registry [OF free(2)] reg1 update_conv' apply_state_twice)
  show ?thesis
    by (simp add: twice update_robot_state_registry [OF free(1)] reg1)
qed

theorem update_robot_state_idempotent_witness:
  "update_robot_state ''r1'' ''speed'' (JNum 3) 5 6 init_server =
     (Returns (), snd (update_robot_state ''r1'' ''speed'' (JNum 3) 5 6 init_server))
   \<and> robot_states (snd (update_robot_state ''r1'' ''speed'' (JNum 3) 9 9
        (snd (update_robot_state ''r1'' ''speed'' (JNum 3) 5 6 init_server)))) =
       robot_states (snd (update_robot_state ''r1'' ''speed'' (JNum 3) 9 9 init_server))
   \<and> map_option custom_state
        (map_of (robot_states (snd (update_robot_state ''r1'' ''speed'' (JNum 3) 9 9
           (snd (update_robot_state ''r1'' ''speed'' (JNum 3) 5 6 init_server))))) ''r1'') =
       Some [(''speed'', JNum 3)]"
proof -
  have ret: "update_robot_state ''r1'' ''speed'' (JNum 3) 5 6 init_server =
     (Returns (), snd (update_robot_state ''r1'' ''speed'' (JNum 3) 5 6 init_server))"
    by code_simp
  have once: "map_option custom_state
        (map_of (robot_states (snd (update_robot_state ''r1'' ''speed'' (JNum 3) 9 9 init_server)))
           ''r1'') = Some [(''speed'', JNum 3)]"
    by code_simp
  from update_robot_state_idempotent [OF ret, of 9 9] ret once show ?thesis by simp
qed

subsection \<open>Dispatch\<close>

lemma schedule_robot_state: "snd (schedule_robot task s) = s"
  by (simp add: schedule_robot_def split: option.splits result.splits)

lemma schedule_robot_Some:
  "\<not> lock s \<Longrightarrow>
     fst (schedule_robot task s) = Returns (Some rid) \<longleftrightarrow>
       rid = req_robot_id task \<and>
       (\<exists>robot. map_of (robot_states s) rid = Some robot \<and> status robot = JStr ''ONLINE''
          \<and> gt_float (battery robot) 20 = Returns True)"
  by (auto simp: schedule_robot_def split: option.splits result.splits)

text \<open>
  For records whose battery field holds a number, the gate is the one of the
  specification: a request for a robot with a non-empty identifier is accepted exactly when
  the record exists, its status is \<^verbatim>\<open>"ONLINE"\<close> and the number exceeds 20, and is
  answered with the 503 otherwise.
\<close>

lemma create_task_numeric_battery:
  assumes "\<not> lock s" and "req_robot_id task \<noteq> []"
    and "\<And>robot. map_of (robot_states s) (req_robot_id task) = Some robot
            \<Longrightarrow> \<exists>x. battery robot = JNum x"
  shows "fst (create_task task now ts s) =
           (if \<exists>robot x. map_of (robot_states s) (req_robot_id task) = Some robot
                  \<and> status robot = JStr ''ONLINE'' \<and> battery robot = JNum x \<and> 20 < x
            then Returns \<lparr>resp_task_id = task_id_at now, resp_robot_id = req_robot_id task,
                          resp_status = ''scheduled''\<rparr>
            else Raises (HTTPException 503 (Robot_unavailable (req_robot_id task))))"
proof (cases "map_of (robot_states s) (req_robot_id task)")
  case None
  with assms(1) show ?thesis
    by (simp add: create_task_def schedule_robot_def)
next
  case (Some robot)
  with assms(3) obtain x where "battery robot = JNum x" by blast
  with Some assms(1,2) show ?thesis
    by (simp add: create_task_def schedule_robot_def Let_def)
qed

text \<open>
  C1 fails on the battery report of the repository's own robot agent
  (\<^verbatim>\<open>publish_state\<close> in \<^verbatim>\<open>src/agent/robot_agent.py\<close> sends a dict with
  voltage, percentage, power supply status and timestamp). The report is stored as the
  battery and sets the status to \<^verbatim>\<open>"ONLINE"\<close>; the dispatch that follows neither
  accepts nor answers with the 503: the comparison with 20.0 raises \<^verbatim>\<open>TypeError\<close>.
\<close>

theorem create_task_battery_report_raises:
  "fst (update_robot_state ''r1'' ''battery''
          (JDict [(''voltage'', JNum 12), (''percentage'', JNum 0.95),
                  (''power_supply_status'', JNum 3), (''timestamp'', JNum 10)])
          10 10 (init_server\<lparr>zenoh_session := True\<rparr>)) = Returns ()
   \<and> fst (create_task
            \<lparr>req_robot_id = ''r1'', req_target_position = [(''x'', 1), (''y'', 2)],
             req_priority = ''normal''\<rparr> 100 100
            (snd (update_robot_state ''r1'' ''battery''
                    (JDict [(''voltage'', JNum 12), (''percentage'', JNum 0.95),
                            (''power_supply_status'', JNum 3), (''timestamp'', JNum 10)])
                    10 10 (init_server\<lparr>zenoh_session := True\<rparr>)))) = Raises TypeError"
  by code_simp

subsection \<open>Cancel and lookup\<close>

text \<open>
  C8. Whenever the lock is free, in every state of the registry and of the bus session:
  for an identifier the registry does not hold, \<^verbatim>\<open>cancel_task\<close> and
  \<^verbatim>\<open>get_robot\<close> both raise the 404 and change nothing; for an identifier the
  registry holds, whatever its record contains, \<^verbatim>\<open>cancel_task\<close> returns its
  acknowledgement and leaves the registry as it is, \<^verbatim>\<open>get_robot\<close> returns the
  record, and, the bus session being open, exactly one message is put on the bus: the
  envelope with the timestamp and the reason \<^verbatim>\<open>"user_request"\<close>, on the robot's
  cancel topic, at priority \<^verbatim>\<open>REAL_TIME\<close>.
\<close>

theorem cancel_task_known_or_404:
  assumes "\<not> lock s"
  shows "(map_of (robot_states s) rid = None \<longrightarrow>
            cancel_task rid now s = (Raises (HTTPException 404 Robot_not_found), s)
            \<and> get_robot rid s = (Raises (HTTPException 404 Robot_not_found), s))
       \<and> (map_of (robot_states s) rid = Some robot \<longrightarrow>
            fst (cancel_task rid now s) =
              Returns (JDict [(''status'', JStr ''cancel command sent'')])
            \<and> robot_states (snd (cancel_task rid now s)) = robot_states s
            \<and> get_robot rid s = (Returns robot, s)
            \<and> (zenoh_session s \<longrightarrow>
                  put (snd (cancel_task rid now s)) =
                    put s @ [\<lparr>put_key = ''fms/robot/'' @ rid @ ''/cmd/cancel'',
                               put_payload = JDict [(''timestamp'', JNum now),
                                                    (''reason'', JStr ''user_request'')],
                               put_priority = REAL_TIME\<rparr>]))"
  using assms
  by (simp add: cancel_task_def get_robot_def zenoh_publish_def cancel_data_def)

theorem cancel_task_known_or_404_witness:
  "\<not> lock known_r1 \<and> zenoh_session known_r1
   \<and> map_option battery (map_of (robot_states known_r1) ''r1'') = Some (JNum 3)
   \<and> map_option status (map_of (robot_states known_r1) ''r1'') = Some (JStr ''OFFLINE'')
   \<and> fst (cancel_task ''r1'' 50 known_r1) =
        Returns (JDict [(''status'', JStr ''cancel command sent'')])
   \<and> put (snd (cancel_task ''r1'' 50 known_r1)) =
        [\<lparr>put_key = ''fms/robot/r1/cmd/cancel'',
          put_payload = JDict [(''timestamp'', JNum 50), (''reason'', JStr ''user_request'')],
          put_priority = REAL_TIME\<rparr>]
   \<and> map_of (robot_states known_r1) ''r3'' = None
   \<and> cancel_task ''r3'' 50 known_r1 = (Raises (HTTPException 404 Robot_not_found), known_r1)
   \<and> get_robot ''r3'' known_r1 = (Raises (HTTPException 404 Robot_not_found), known_r1)
   \<and> \<not> lock init_server \<and> map_of (robot_states init_server) ''r3'' = None
   \<and> cancel_task ''r3'' 50 init_server = (Raises (HTTPException 404 Robot_not_found), init_server)
   \<and> get_robot ''r3'' init_server = (Raises (HTTPException 404 Robot_not_found), init_server)"
proof -
  have free: "\<not> lock known_r1" "\<not> lock init_server"
    by (simp_all add: known_r1_def init_server_def)
  have h: "zenoh_session known_r1"
    "map_of (robot_states known_r1) ''r1'' =
       Some \<lparr>robot_id = ''r1'', pose = JDict [], battery = JNum 3,
             status = JStr ''OFFLINE'', last_seen = 1, custom_state = []\<rparr>"
    "map_of (robot_states known_r1) ''r3'' = None"
    "map_of (robot_states init_server) ''r3'' = None"
    "put known_r1 = []"
    by (simp_all add: known_r1_def init_server_def)
  from cancel_task_known_or_404 [OF free(1), of "''r1''" 50
         "\<lparr>robot_id = ''r1'', pose = JDict [], battery = JNum 3,
           status = JStr ''OFFLINE'', last_seen = 1, custom_state = []\<rparr>"]
       cancel_task_known_or_404 [OF free(1), of "''r3''" 50]
       cancel_task_known_or_404 [OF free(2), of "''r3''" 50]
       free h
  show ?thesis by simp
qed

subsection \<open>What a sweep and a run leave alone\<close>

lemma zenoh_publish_frame:
  "robot_states (zenoh_publish k d p s) = robot_states s \<and> lock (zenoh_publish k d p s) = lock s
   \<and> zenoh_session (zenoh_publish k d p s) = zenoh_session s"
  by (simp add: zenoh_publish_def)

lemma publish_offline_frame:
  "robot_states (publish_offline t ids s) = robot_states s \<and> lock (publish_offline t ids s) = lock s
   \<and> zenoh_session (publish_offline t ids s) = zenoh_session s"
  by (induction ids arbitrary: s) (simp_all add: zenoh_publish_frame)

lemma broadcast_update_frame:
  "broadcast_update rid st d ts s = (r, s') \<Longrightarrow>
     robot_states s' = robot_states s \<and> lock s' = lock s \<and> closed s' = closed s
     \<and> zenoh_session s' = zenoh_session s \<and> put s' = put s"
  unfolding broadcast_update_def by (rule broadcast_loop_frame)

lemma offline_loop_frame:
  "offline_loop t th ts ks acc s = (r, s') \<Longrightarrow>
     lock s' = lock s \<and> zenoh_session s' = zenoh_session s \<and> put s' = put s
     \<and> closed s' = closed s
     \<and> map_option battery (map_of (robot_states s') rid) =
         map_option battery (map_of (robot_states s) rid)
     \<and> map_option last_seen (map_of (robot_states s') rid) =
         map_option last_seen (map_of (robot_states s) rid)"
proof (induction ks arbitrary: acc s)
  case Nil
  then show ?case by simp
next
  case (Cons k ks)
  show ?case
  proof (cases "map_of (robot_states s) k")
    case None
    with Cons.prems have "offline_loop t th ts ks acc s = (r, s')" by simp
    from Cons.IH [OF this] show ?thesis .
  next
    case (Some robot)
    show ?thesis
    proof (cases "t - last_seen robot > th \<and> status robot \<noteq> JStr ''OFFLINE''")
      case False
      with Some Cons.prems have "offline_loop t th ts ks acc s = (r, s')" by auto
      from Cons.IH [OF this] show ?thesis .
    next
      case True
      let ?s1 = "s\<lparr>robot_states :=
                    AList.update k (robot\<lparr>status := JStr ''OFFLINE''\<rparr>) (robot_states s)\<rparr>"
      obtain r1 s2 where b: "broadcast_update k ''status'' (JStr ''OFFLINE'') ts ?s1 = (r1, s2)"
        by (cases "broadcast_update k ''status'' (JStr ''OFFLINE'') ts ?s1")
      note fr = broadcast_update_frame [OF b]
      have mid: "map_option battery (map_of (robot_states s2) rid) =
                   map_option battery (map_of (robot_states s) rid)
                 \<and> map_option last_seen (map_of (robot_states s2) rid) =
                   map_option last_seen (map_of (robot_states s) rid)"
        using fr Some by (simp add: update_conv')
      show ?thesis
      proof (cases r1)
        case (Returns u)
        with Some True b Cons.prems have "offline_loop t th ts ks (acc @ [k]) s2 = (r, s')"
          by simp
        from Cons.IH [OF this] fr mid show ?thesis by simp
      next
        case (Raises e)
        with Some True b Cons.prems fr mid show ?thesis by auto
      next
        case Blocks
        with Some True b Cons.prems fr mid show ?thesis by auto
      qed
    qed
  qed
qed

lemma sweep_frame:
  "sweep th t ts s = (r, s') \<Longrightarrow>
     zenoh_session s' = zenoh_session s
     \<and> map_option battery (map_of (robot_states s') rid) =
         map_option battery (map_of (robot_states s) rid)
     \<and> map_option last_seen (map_of (robot_states s') rid) =
         map_option last_seen (map_of (robot_states s) rid)"
proof (cases "lock s")
  case True
  then show "sweep th t ts s = (r, s') \<Longrightarrow> ?thesis" by (auto simp: sweep_def)
next
  case False
  assume sw: "sweep th t ts s = (r, s')"
  obtain r1 s1 where ol:
    "offline_loop t th ts (map fst (robot_states s)) [] (s\<lparr>lock := True\<rparr>) = (r1, s1)"
    by (cases "offline_loop t th ts (map fst (robot_states s)) [] (s\<lparr>lock := True\<rparr>)")
  from offline_loop_frame [OF ol, of rid] sw ol False show ?thesis
    by (cases r1) (auto simp: sweep_def publish_offline_frame)
qed

lemma sweep_Returns_unlocked: "sweep th t ts s = (Returns u, s') \<Longrightarrow> \<not> lock s \<and> \<not> lock s'"
  by (auto simp: sweep_def publish_offline_frame split: if_splits prod.splits result.splits)

lemma step_Returns_unlocked: "step e s = (Returns u, s') \<Longrightarrow> \<not> lock s \<and> \<not> lock s'"
  by (cases e) (auto dest: update_robot_state_Returns_unlocked sweep_Returns_unlocked)

lemma run_Returns_unlocked: "run es s = (Returns u, s') \<Longrightarrow> \<not> lock s \<Longrightarrow> \<not> lock s'"
proof (induction es arbitrary: s)
  case Nil
  then show ?case by simp
next
  case (Cons e es)
  obtain r1 s1 where st: "step e s = (r1, s1)" by (cases "step e s")
  with Cons.prems(1) obtain u1 where r1: "r1 = Returns u1" and rest: "run es s1 = (Returns u, s')"
    by (cases r1) auto
  from st r1 have "\<not> lock s1" using step_Returns_unlocked by blast
  from Cons.IH [OF rest this] show ?case .
qed

subsection \<open>A robot that never reported its battery\<close>

lemma step_battery_default:
  assumes "step e s = (Returns u, s')" and "\<not> battery_report rid e"
    and "map_option battery (map_of (robot_states s) rid) \<in> {None, Some (JNum 0)}"
  shows "map_option battery (map_of (robot_states s') rid) \<in> {None, Some (JNum 0)}"
proof (cases e)
  case (Sweep th t ts)
  with assms(1) have "sweep th t ts s = (Returns u, s')" by simp
  from sweep_frame [OF this, of rid] assms(3) show ?thesis by simp
next
  case (Update rid' st d now ts)
  with assms(1) have up: "update_robot_state rid' st d now ts s = (Returns u, s')" by simp
  then have free: "\<not> lock s" using update_robot_state_Returns_unlocked by blast
  from up have s': "s' = snd (update_robot_state rid' st d now ts s)" by simp
  show ?thesis
  proof (cases "rid' = rid")
    case False
    then show ?thesis using assms(3) by (simp add: s' update_robot_state_other)
  next
    case True
    with Update assms(2) have "st \<noteq> ''battery''" by simp
    with True assms(3) show ?thesis
      by (auto simp: s' update_robot_state_lookup [OF free] apply_state_battery
            new_RobotState_def split: option.splits)
  qed
qed

lemma run_battery_default:
  assumes "run es s = (Returns u, s')" and "\<forall>e \<in> set es. \<not> battery_report rid e"
    and "map_option battery (map_of (robot_states s) rid) \<in> {None, Some (JNum 0)}"
  shows "map_option battery (map_of (robot_states s') rid) \<in> {None, Some (JNum 0)}"
  using assms
proof (induction es arbitrary: s)
  case Nil
  then show ?case by simp
next
  case (Cons e es)
  obtain r1 s1 where st: "step e s = (r1, s1)" by (cases "step e s")
  with Cons.prems(1) obtain u1 where r1: "r1 = Returns u1" and rest: "run es s1 = (Returns u, s')"
    by (cases r1) auto
  from Cons.prems(2) have e: "\<not> battery_report rid e" and es: "\<forall>e \<in> set es. \<not> battery_report rid e"
    by simp_all
  from step_battery_default [OF st [unfolded r1] e Cons.prems(3)]
  show ?case by (rule Cons.IH [OF rest es])
qed

text \<open>
  C10. Take a registry that does not hold the robot, and any run of updates and liveness
  sweeps in which no update of category \<^verbatim>\<open>"battery"\<close> is addressed to it. In the
  state the run returns, the robot's record, if it has one, still has the default battery
  0.0, and a dispatch to the robot is answered with the 503, whatever its status is.
\<close>

theorem create_task_without_battery_report:
  assumes "\<not> lock s" and "map_of (robot_states s) rid = None"
    and "run es s = (Returns (), s')"
    and "\<forall>e \<in> set es. \<not> battery_report rid e"
    and "req_robot_id task = rid"
  shows "map_option battery (map_of (robot_states s') rid) \<in> {None, Some (JNum 0)}
       \<and> create_task task now ts s' = (Raises (HTTPException 503 (Robot_unavailable rid)), s')"
proof -
  from assms(2) have "map_option battery (map_of (robot_states s) rid) \<in> {None, Some (JNum 0)}"
    by simp
  from run_battery_default [OF assms(3,4) this]
  have b: "map_option battery (map_of (robot_states s') rid) \<in> {None, Some (JNum 0)}" .
  from run_Returns_unlocked [OF assms(3,1)] have free: "\<not> lock s'" .
  have "schedule_robot task s' = (Returns None, s')"
    using b free assms(5) by (auto simp: schedule_robot_def split: option.splits)
  then have "create_task task now ts s' = (Raises (HTTPException 503 (Robot_unavailable rid)), s')"
    by (simp add: create_task_def assms(5))
  with b show ?thesis by simp
qed

theorem create_task_without_battery_report_witness:
  "\<not> lock init_server \<and> map_of (robot_states init_server) ''r1'' = None
   \<and> run quiet_run init_server = (Returns (), snd (run quiet_run init_server))
   \<and> filter (battery_report ''r1'') quiet_run = []
   \<and> map_option status (map_of (robot_states (snd (run quiet_run init_server))) ''r1'') =
        Some (JStr ''ONLINE'')
   \<and> fst (create_task \<lparr>req_robot_id = ''r1'', req_target_position = [], req_priority = ''high''\<rparr>
             9 9 (snd (run quiet_run init_server))) =
        Raises (HTTPException 503 (Robot_unavailable ''r1''))"
proof -
  have h1: "\<not> lock init_server" "map_of (robot_states init_server) ''r1'' = None"
    by (simp_all add: init_server_def)
  have h2: "run quiet_run init_server = (Returns (), snd (run quiet_run init_server))"
    by code_simp
  have h3: "\<forall>e \<in> set quiet_run. \<not> battery_report ''r1'' e"
    by (simp add: quiet_run_def)
  have h4: "map_option status (map_of (robot_states (snd (run quiet_run init_server))) ''r1'') =
        Some (JStr ''ONLINE'')"
    by code_simp
  have h5: "filter (battery_report ''r1'') quiet_run = []"
    by (simp add: quiet_run_def)
  from create_task_without_battery_report [OF h1 h2 h3,
      of "\<lparr>req_robot_id = ''r1'', req_target_position = [], req_priority = ''high''\<rparr>" 9 9]
    h1 h2 h4 h5
  show ?thesis by simp
qed

subsection \<open>Task identifiers\<close>

lemma digit_in_digits: "digit d \<in> set ''0123456789''"
  unfolding digit_def by (rule nth_mem) simp

lemma digit_not_minus: "digit d \<noteq> CHR ''-''"
  using digit_in_digits [of d] by auto

lemma digit_inj: "a < 10 \<Longrightarrow> b < 10 \<Longrightarrow> digit a = digit b \<Longrightarrow> a = b"
proof -
  assume a: "a < 10" and b: "b < 10" and eq: "digit a = digit b"
  have d: "distinct ''0123456789''" by simp
  from a b eq have "''0123456789'' ! a = ''0123456789'' ! b" by (simp add: digit_def)
  with d a b show "a = b" by (simp add: nth_eq_iff_index_eq)
qed

lemma str_nat_small: "n < 10 \<Longrightarrow> str_nat n = [digit n]"
  by (subst str_nat.simps) simp

lemma str_nat_large: "\<not> n < 10 \<Longrightarrow> str_nat n = str_nat (n div 10) @ [digit (n mod 10)]"
  by (subst str_nat.simps) simp

lemma str_nat_nonempty: "str_nat n \<noteq> []"
  by (cases "n < 10") (simp_all add: str_nat_small str_nat_large)

lemma str_nat_no_minus: "CHR ''-'' \<notin> set (str_nat n)"
proof (induction n rule: str_nat.induct)
  case (1 n)
  show ?case
  proof (cases "n < 10")
    case True
    then show ?thesis using digit_not_minus [of n] by (auto simp: str_nat_small)
  next
    case False
    with "1.IH" digit_not_minus [of "n mod 10"] show ?thesis by (auto simp: str_nat_large)
  qed
qed

lemma str_nat_inj: "str_nat m = str_nat n \<Longrightarrow> m = n"
proof (induction m arbitrary: n rule: str_nat.induct)
  case (1 m)
  show ?case
  proof (cases "m < 10")
    case m: True
    show ?thesis
    proof (cases "n < 10")
      case True
      with m "1.prems" show ?thesis by (simp add: str_nat_small digit_inj)
    next
      case False
      with m "1.prems" str_nat_nonempty [of "n div 10"] show ?thesis
        by (simp add: str_nat_small str_nat_large)
    qed
  next
    case m: False
    show ?thesis
    proof (cases "n < 10")
      case True
      with m "1.prems" str_nat_nonempty [of "m div 10"] show ?thesis
        by (simp add: str_nat_small str_nat_large)
    next
      case False
      with m "1.prems" have hi: "str_nat (m div 10) = str_nat (n div 10)"
        and lo: "digit (m mod 10) = digit (n mod 10)"
        by (simp_all add: str_nat_large)
      from "1.IH" [OF m hi] have "m div 10 = n div 10" .
      moreover from lo have "m mod 10 = n mod 10" by (simp add: digit_inj)
      ultimately show ?thesis by (metis div_mult_mod_eq)
    qed
  qed
qed

lemma str_int_inj: "str_int i = str_int j \<Longrightarrow> i = j"
proof -
  assume eq: "str_int i = str_int j"
  have neg_pos: False if "a < 0" "\<not> b < 0" "str_int a = str_int b" for a b
  proof -
    from that have "CHR ''-'' \<in> set (str_nat (nat b))"
      by (simp add: str_int_def) (metis list.set_intros(1))
    with str_nat_no_minus show False by blast
  qed
  show "i = j"
  proof (cases "i < 0")
    case i: True
    show ?thesis
    proof (cases "j < 0")
      case True
      with i eq have "nat (- i) = nat (- j)" by (simp add: str_int_def str_nat_inj)
      with i True show ?thesis by simp
    next
      case False
      with i eq neg_pos show ?thesis by blast
    qed
  next
    case i: False
    show ?thesis
    proof (cases "j < 0")
      case True
      with i eq neg_pos [of j i] show ?thesis by simp
    next
      case False
      with i eq have "nat i = nat j" by (simp add: str_int_def str_nat_inj)
      with i False show ?thesis by simp
    qed
  qed
qed

lemma task_id_at_eq: "task_id_at t = task_id_at t' \<longleftrightarrow> int_of_float t = int_of_float t'"
  by (auto simp: task_id_at_def dest: str_int_inj)

lemma create_task_Returns:
  "create_task task now ts s = (Returns resp, s') \<Longrightarrow>
     resp = \<lparr>resp_task_id = task_id_at now, resp_robot_id = req_robot_id task,
             resp_status = ''scheduled''\<rparr>"
  by (auto simp: create_task_def schedule_robot_def Let_def
        split: prod.splits result.splits option.splits if_splits)

text \<open>
  C2, as the code has it. The identifier of an accepted dispatch is \<^verbatim>\<open>task_\<close>
  followed by the decimal digits of the whole seconds of the clock at the dispatch. Two
  accepted dispatches, anywhere in a run, carry the same identifier exactly when their
  clock readings have the same whole seconds.
\<close>

theorem create_task_id_by_second:
  assumes "create_task task now ts s = (Returns resp, s1)"
    and "create_task task' now' ts' s' = (Returns resp', s2)"
  shows "resp_task_id resp = ''task_'' @ str_int (int_of_float now)
       \<and> (resp_task_id resp = resp_task_id resp' \<longleftrightarrow> int_of_float now = int_of_float now')"
  using create_task_Returns [OF assms(1)] create_task_Returns [OF assms(2)]
  by (simp add: task_id_at_eq) (simp add: task_id_at_def)

theorem create_task_id_by_second_witness:
  "create_task to_r1 (1002 / 10) (1002 / 10) charged_r1 =
     (Returns \<lparr>resp_task_id = ''task_100'', resp_robot_id = ''r1'', resp_status = ''scheduled''\<rparr>,
      snd (create_task to_r1 (1002 / 10) (1002 / 10) charged_r1))
   \<and> create_task to_r1 (1013 / 10) (1013 / 10)
        (snd (create_task to_r1 (1002 / 10) (1002 / 10) charged_r1)) =
     (Returns \<lparr>resp_task_id = ''task_101'', resp_robot_id = ''r1'', resp_status = ''scheduled''\<rparr>,
      snd (create_task to_r1 (1013 / 10) (1013 / 10)
             (snd (create_task to_r1 (1002 / 10) (1002 / 10) charged_r1))))
   \<and> int_of_float (1002 / 10) \<noteq> int_of_float (1013 / 10)
   \<and> ''task_100'' = ''task_'' @ str_int (int_of_float (1002 / 10))"
proof -
  have h1: "create_task to_r1 (1002 / 10) (1002 / 10) charged_r1 =
     (Returns \<lparr>resp_task_id = ''task_100'', resp_robot_id = ''r1'', resp_status = ''scheduled''\<rparr>,
      snd (create_task to_r1 (1002 / 10) (1002 / 10) charged_r1))"
    by code_simp
  have h2: "create_task to_r1 (1013 / 10) (1013 / 10)
        (snd (create_task to_r1 (1002 / 10) (1002 / 10) charged_r1)) =
     (Returns \<lparr>resp_task_id = ''task_101'', resp_robot_id = ''r1'', resp_status = ''scheduled''\<rparr>,
      snd (create_task to_r1 (1013 / 10) (1013 / 10)
             (snd (create_task to_r1 (1002 / 10) (1002 / 10) charged_r1))))"
    by code_simp
  from create_task_id_by_second [OF h1 h2] h1 h2 show ?thesis by simp
qed

text \<open>
  C2 fails: two dispatches to the same robot, at 100.2 and at 100.7 seconds, are both
  accepted and both receive the identifier \<^verbatim>\<open>task_100\<close>.
\<close>

theorem create_task_same_second_counterexample:
  "fst (create_task to_r1 (1002 / 10) (1002 / 10) charged_r1) =
     Returns \<lparr>resp_task_id = ''task_100'', resp_robot_id = ''r1'', resp_status = ''scheduled''\<rparr>
   \<and> fst (create_task to_r1 (1007 / 10) (1007 / 10)
            (snd (create_task to_r1 (1002 / 10) (1002 / 10) charged_r1))) =
     Returns \<lparr>resp_task_id = ''task_100'', resp_robot_id = ''r1'', resp_status = ''scheduled''\<rparr>"
  by code_simp

subsection \<open>Keys of the bus\<close>

lemma split_nonempty: "split sep s \<noteq> []"
  by (induction s) (auto split: list.splits)

lemma split_append: "split sep (a @ sep # b) = split sep a @ split sep b"
proof (induction a)
  case Nil
  show ?case by simp
next
  case (Cons x a)
  obtain p ps where "split sep a = p # ps"
    using split_nonempty [of sep a] by (cases "split sep a") auto
  with Cons show ?case by simp
qed

lemma split_no_sep: "sep \<notin> set s \<Longrightarrow> split sep s = [s]"
  by (induction s) auto

lemma join_Cons: "parts \<noteq> [] \<Longrightarrow> join sep (part # parts) = part @ sep # join sep parts"
  by (cases parts) simp_all

lemma join_split: "join sep (split sep s) = s"
proof (induction s)
  case Nil
  show ?case by simp
next
  case (Cons x s)
  obtain p ps where sp: "split sep s = p # ps"
    using split_nonempty [of sep s] by (cases "split sep s") auto
  show ?case
  proof (cases "x = sep")
    case True
    with Cons sp show ?thesis by simp
  next
    case False
    with Cons sp show ?thesis by (cases ps) simp_all
  qed
qed

lemma parse_key_state:
  assumes "CHR ''/'' \<notin> set rid"
  shows "parse_key (''fms/robot/'' @ rid @ ''/state/'' @ category) = Some (rid, category)"
proof -
  have key: "''fms/robot/'' @ rid @ ''/state/'' @ category =
               ''fms'' @ CHR ''/'' # (''robot'' @ CHR ''/'' # (rid @ CHR ''/''
                 # (''state'' @ CHR ''/'' # category)))"
    by simp
  have parts: "split CHR ''/'' (''fms/robot/'' @ rid @ ''/state/'' @ category) =
                 [''fms'', ''robot'', rid, ''state''] @ split CHR ''/'' category"
    unfolding key split_append by (simp add: split_no_sep [OF assms])
  obtain p ps where sp: "split CHR ''/'' category = p # ps"
    using split_nonempty [of "CHR ''/''" category] by (cases "split CHR ''/'' category") auto
  have "join CHR ''/'' (p # ps) = category" using join_split [of "CHR ''/''" category] sp by simp
  then show ?thesis
    unfolding parse_key_def parts sp by (simp add: Let_def)
qed

lemma callback_state:
  "CHR ''/'' \<notin> set rid \<Longrightarrow>
     callback (''fms/robot/'' @ rid @ ''/state/'' @ category) (Some data) now ts s =
       update_robot_state rid category data now ts s"
  using parse_key_state [of rid category] by (simp add: callback_def)

subsection \<open>The fan-out while the lock is held\<close>

text \<open>
  Both callers of \<^verbatim>\<open>broadcast_update\<close> hold the lock. Then the observers are served
  in order up to the first one whose send raises; there \<^verbatim>\<open>remove_connection\<close> waits
  for the lock and the broadcast never returns.
\<close>

lemma broadcast_loop_locked:
  "lock s \<Longrightarrow>
     broadcast_loop m i s =
       (if set (drop i (websocket_connections s)) \<inter> set (closed s) = {} then Returns () else Blocks,
        s\<lparr>sent := sent s @ map (\<lambda>c. (c, m))
                  (takeWhile (\<lambda>c. c \<notin> set (closed s)) (drop i (websocket_connections s)))\<rparr>)"
proof (induction m i s rule: broadcast_loop.induct)
  case (1 m i s)
  show ?case
  proof (cases "i < length (websocket_connections s)")
    case False
    then show ?thesis by (simp add: broadcast_loop_done)
  next
    case True
    let ?c = "websocket_connections s ! i"
    have dr: "drop i (websocket_connections s) = ?c # drop (Suc i) (websocket_connections s)"
      using True by (simp add: Cons_nth_drop_Suc)
    show ?thesis
    proof (cases "?c \<in> set (closed s)")
      case inset: True
      with "1.prems" have "remove_connection ?c s = (Blocks, s)"
        by (simp add: remove_connection_def)
      with inset show ?thesis
        by (simp add: broadcast_loop_fail [OF True inset] dr)
    next
      case False
      let ?s1 = "s\<lparr>sent := sent s @ [(?c, m)]\<rparr>"
      from "1.prems" have "lock ?s1" by simp
      from "1.IH"(2) [OF True refl False this] False show ?thesis
        by (simp add: broadcast_loop_send [OF True False] dr)
    qed
  qed
qed

lemma broadcast_update_locked:
  "lock s \<Longrightarrow>
     broadcast_update rid st d ts s =
       (if set (websocket_connections s) \<inter> set (closed s) = {} then Returns () else Blocks,
        s\<lparr>sent := sent s @ map (\<lambda>c. (c, state_update_msg rid st d ts))
                  (takeWhile (\<lambda>c. c \<notin> set (closed s)) (websocket_connections s))\<rparr>)"
  by (simp add: broadcast_update_def broadcast_loop_locked)

lemma takeWhile_all: "set xs \<inter> A = {} \<Longrightarrow> takeWhile (\<lambda>c. c \<notin> A) xs = xs"
  by (induction xs) auto

text \<open>
  An applied update returns exactly when no registered observer is closed; then every
  observer has been sent the envelope once, in the order of registration.
\<close>

lemma update_robot_state_returns_iff:
  "\<not> lock s \<Longrightarrow>
     fst (update_robot_state rid st d now ts s) = Returns () \<longleftrightarrow>
       set (websocket_connections s) \<inter> set (closed s) = {}"
  by (simp add: update_robot_state_def Let_def broadcast_update_locked)

lemma update_robot_state_sent:
  "\<not> lock s \<Longrightarrow> set (websocket_connections s) \<inter> set (closed s) = {} \<Longrightarrow>
     sent (snd (update_robot_state rid st d now ts s)) =
       sent s @ map (\<lambda>c. (c, state_update_msg rid st d ts)) (websocket_connections s)
     \<and> websocket_connections (snd (update_robot_state rid st d now ts s)) = websocket_connections s"
  by (simp add: update_robot_state_def Let_def broadcast_update_locked takeWhile_all)

lemma update_robot_state_blocks:
  "\<not> lock s \<Longrightarrow> set (websocket_connections s) \<inter> set (closed s) \<noteq> {} \<Longrightarrow>
     fst (update_robot_state rid st d now ts s) = Blocks
     \<and> lock (snd (update_robot_state rid st d now ts s))
     \<and> websocket_connections (snd (update_robot_state rid st d now ts s)) = websocket_connections s
     \<and> sent (snd (update_robot_state rid st d now ts s)) =
         sent s @ map (\<lambda>c. (c, state_update_msg rid st d ts))
                    (takeWhile (\<lambda>c. c \<notin> set (closed s)) (websocket_connections s))"
  by (simp add: update_robot_state_def Let_def broadcast_update_locked)

subsection \<open>The liveness sweep when no observer is closed\<close>

lemma map_of_middle: "k \<notin> fst ` set pre \<Longrightarrow> map_of (pre @ (k, v) # post) k = Some v"
  by (induction pre) auto

lemma update_middle:
  "k \<notin> fst ` set pre \<Longrightarrow> AList.update k v' (pre @ (k, v) # post) = pre @ (k, v') # post"
  by (induction pre) auto

lemma offline_loop_Cons:
  "map_of (robot_states s) k = Some r \<Longrightarrow>
     offline_loop t th ts (k # ks) acc s =
       (if silent th t r then
          (case broadcast_update k ''status'' (JStr ''OFFLINE'') ts
                  (s\<lparr>robot_states :=
                       AList.update k (r\<lparr>status := JStr ''OFFLINE''\<rparr>) (robot_states s)\<rparr>) of
             (Returns u, s') \<Rightarrow> offline_loop t th ts ks (acc @ [k]) s'
           | (Raises e, s') \<Rightarrow> (Raises e, s')
           | (Blocks, s') \<Rightarrow> (Blocks, s'))
        else offline_loop t th ts ks acc s)"
  by (simp add: silent_def)

lemma offline_loop_spec:
  assumes "lock s" and "set (websocket_connections s) \<inter> set (closed s) = {}"
    and "robot_states s = pre @ post" and "distinct (map fst (pre @ post))"
  shows "offline_loop t th ts (map fst post) acc s =
           (Returns (acc @ switched th t post),
            s\<lparr>robot_states := pre @ map (\<lambda>(rid, robot). (rid, swept th t robot)) post,
              sent := sent s @ offline_broadcasts ts (websocket_connections s) (switched th t post)\<rparr>)"
  using assms
proof (induction post arbitrary: pre acc s)
  case Nil
  then show ?case by (simp add: switched_def offline_broadcasts_def)
next
  case (Cons kr post)
  obtain k r where kr: "kr = (k, r)" by (cases kr)
  from Cons.prems(4) kr have fresh: "k \<notin> fst ` set pre" by auto
  have look: "map_of (robot_states s) k = Some r"
    unfolding Cons.prems(3) kr by (rule map_of_middle [OF fresh])
  show ?case
  proof (cases "silent th t r")
    case False
    have "offline_loop t th ts (map fst post) acc s =
            (Returns (acc @ switched th t post),
             s\<lparr>robot_states := (pre @ [(k, r)]) @ map (\<lambda>(rid, robot). (rid, swept th t robot)) post,
               sent := sent s @ offline_broadcasts ts (websocket_connections s) (switched th t post)\<rparr>)"
      using Cons.prems kr by (intro Cons.IH) simp_all
    with False kr show ?thesis
      by (simp add: offline_loop_Cons [OF look] swept_def switched_def del: offline_loop.simps)
  next
    case True
    let ?s1 = "s\<lparr>robot_states := AList.update k (r\<lparr>status := JStr ''OFFLINE''\<rparr>) (robot_states s)\<rparr>"
    let ?s2 = "?s1\<lparr>sent := sent s @ map (\<lambda>c. (c, state_update_msg k ''status'' (JStr ''OFFLINE'') ts))
                                    (websocket_connections s)\<rparr>"
    have b: "broadcast_update k ''status'' (JStr ''OFFLINE'') ts ?s1 = (Returns (), ?s2)"
      using Cons.prems(1,2) by (simp add: broadcast_update_locked takeWhile_all)
    have rs2: "robot_states ?s2 = (pre @ [(k, r\<lparr>status := JStr ''OFFLINE''\<rparr>)]) @ post"
      using update_middle [OF fresh, of "r\<lparr>status := JStr ''OFFLINE''\<rparr>" r post] Cons.prems(3) kr
      by simp
    have "offline_loop t th ts (map fst post) (acc @ [k]) ?s2 =
            (Returns ((acc @ [k]) @ switched th t post),
             ?s2\<lparr>robot_states := (pre @ [(k, r\<lparr>status := JStr ''OFFLINE''\<rparr>)])
                                    @ map (\<lambda>(rid, robot). (rid, swept th t robot)) post,
                 sent := sent ?s2 @ offline_broadcasts ts (websocket_connections ?s2)
                                      (switched th t post)\<rparr>)"
      using Cons.prems(1,2,4) kr rs2 by (intro Cons.IH) simp_all
    with True kr b show ?thesis
      by (simp add: offline_loop_Cons [OF look] swept_def switched_def offline_broadcasts_def
            del: offline_loop.simps)
  qed
qed

lemma publish_offline_spec:
  "publish_offline t rids s =
     s\<lparr>put := put s @ (if zenoh_session s then map (offline_put t) rids else [])\<rparr>"
  by (induction rids arbitrary: s)
     (simp_all add: zenoh_publish_def offline_put_def robot_offline_event_def)

text \<open>
  One iteration of the liveness loop, when the lock is free, the keys of the registry are
  distinct and no observer is closed: it returns; every record that has been silent for
  longer than the threshold and is not \<^verbatim>\<open>"OFFLINE"\<close> is switched; each switch is
  broadcast once to every observer; and, the session being open, one event per switched
  robot is put on the bus.
\<close>

lemma sweep_spec:
  assumes "\<not> lock s" and "set (websocket_connections s) \<inter> set (closed s) = {}"
    and "distinct (map fst (robot_states s))"
  shows "sweep th t ts s =
           (Returns (),
            s\<lparr>robot_states := map (\<lambda>(rid, robot). (rid, swept th t robot)) (robot_states s),
              sent := sent s @ offline_broadcasts ts (websocket_connections s)
                                 (switched th t (robot_states s)),
              put := put s @ (if zenoh_session s
                              then map (offline_put t) (switched th t (robot_states s)) else [])\<rparr>)"
proof -
  have "offline_loop t th ts (map fst (robot_states s)) [] (s\<lparr>lock := True\<rparr>) =
          (Returns ([] @ switched th t (robot_states s)),
           s\<lparr>lock := True,
             robot_states := [] @ map (\<lambda>(rid, robot). (rid, swept th t robot)) (robot_states s),
             sent := sent (s\<lparr>lock := True\<rparr>)
                       @ offline_broadcasts ts (websocket_connections (s\<lparr>lock := True\<rparr>))
                           (switched th t (robot_states s))\<rparr>)"
    using assms by (intro offline_loop_spec) simp_all
  with assms(1) show ?thesis
    by (simp add: sweep_def publish_offline_spec)
qed

text \<open>
  With a closed observer the first switch of a sweep never gets past its broadcast: the
  iteration waits forever while it holds the lock, and nothing is put on the bus.
\<close>

lemma offline_loop_blocks:
  assumes "lock s" and "set (websocket_connections s) \<inter> set (closed s) \<noteq> {}"
    and "robot_states s = pre @ post" and "distinct (map fst (pre @ post))"
    and "\<exists>robot \<in> snd ` set post. silent th t robot"
  shows "fst (offline_loop t th ts (map fst post) acc s) = Blocks"
  using assms
proof (induction post arbitrary: pre)
  case Nil
  then show ?case by simp
next
  case (Cons kr post)
  obtain k r where kr: "kr = (k, r)" by (cases kr)
  from Cons.prems(4) kr have fresh: "k \<notin> fst ` set pre" by auto
  have look: "map_of (robot_states s) k = Some r"
    unfolding Cons.prems(3) kr by (rule map_of_middle [OF fresh])
  show ?case
  proof (cases "silent th t r")
    case True
    with kr Cons.prems(1,2) show ?thesis
      by (simp add: offline_loop_Cons [OF look] broadcast_update_locked del: offline_loop.simps)
  next
    case False
    with Cons.prems(5) kr have ex: "\<exists>robot \<in> snd ` set post. silent th t robot" by auto
    have "fst (offline_loop t th ts (map fst post) acc s) = Blocks"
      using Cons.prems(1,2,3,4) kr ex by (intro Cons.IH [of "pre @ [(k, r)]"]) simp_all
    with False kr show ?thesis
      by (simp add: offline_loop_Cons [OF look] del: offline_loop.simps)
  qed
qed

lemma sweep_blocks:
  assumes "\<not> lock s" and "set (websocket_connections s) \<inter> set (closed s) \<noteq> {}"
    and "distinct (map fst (robot_states s))"
    and "\<exists>robot \<in> snd ` set (robot_states s). silent th t robot"
  shows "fst (sweep th t ts s) = Blocks \<and> put (snd (sweep th t ts s)) = put s
       \<and> lock (snd (sweep th t ts s))"
proof -
  obtain r1 s1 where ol:
    "offline_loop t th ts (map fst (robot_states s)) [] (s\<lparr>lock := True\<rparr>) = (r1, s1)"
    by (cases "offline_loop t th ts (map fst (robot_states s)) [] (s\<lparr>lock := True\<rparr>)")
  have "fst (offline_loop t th ts (map fst (robot_states s)) [] (s\<lparr>lock := True\<rparr>)) = Blocks"
    using assms by (intro offline_loop_blocks [of _ "[]"]) simp_all
  with ol have r1: "r1 = Blocks" by simp
  from offline_loop_frame [OF ol] have "put s1 = put s" "lock s1" by simp_all
  with assms(1) ol r1 show ?thesis by (simp add: sweep_def)
qed

lemma offline_loop_quiet:
  assumes "robot_states s = pre @ post" and "distinct (map fst (pre @ post))"
    and "\<not> (\<exists>robot \<in> snd ` set post. silent th t robot)"
  shows "offline_loop t th ts (map fst post) acc s = (Returns acc, s)"
  using assms
proof (induction post arbitrary: pre)
  case Nil
  then show ?case by simp
next
  case (Cons kr post)
  obtain k r where kr: "kr = (k, r)" by (cases kr)
  from Cons.prems(2) kr have fresh: "k \<notin> fst ` set pre" by auto
  have look: "map_of (robot_states s) k = Some r"
    unfolding Cons.prems(1) kr by (rule map_of_middle [OF fresh])
  from Cons.prems(3) kr have quiet: "\<not> silent th t r"
    and rest: "\<not> (\<exists>robot \<in> snd ` set post. silent th t robot)"
    by auto
  have "offline_loop t th ts (map fst post) acc s = (Returns acc, s)"
    using Cons.prems(1,2) kr rest by (intro Cons.IH [of "pre @ [(k, r)]"]) simp_all
  with quiet kr show ?case
    by (simp add: offline_loop_Cons [OF look] del: offline_loop.simps)
qed

lemma unlock_free: "\<not> lock s \<Longrightarrow> s\<lparr>lock := False\<rparr> = s"
  by (cases s) simp

lemma swept_quiet:
  "\<not> (\<exists>robot \<in> snd ` set rs. silent th t robot) \<Longrightarrow>
     map (\<lambda>(rid, robot). (rid, swept th t robot)) rs = rs \<and> switched th t rs = []"
  by (induction rs) (auto simp: swept_def switched_def)

text \<open>
  A sweep that returns has done exactly this, whether or not an observer is closed: with a
  closed observer it can only return when it had nothing to switch.
\<close>

lemma sweep_Returns_spec:
  assumes "sweep th t ts s = (Returns u, s')" and "distinct (map fst (robot_states s))"
  shows "s' = s\<lparr>robot_states := map (\<lambda>(rid, robot). (rid, swept th t robot)) (robot_states s),
                sent := sent s @ offline_broadcasts ts (websocket_connections s)
                                   (switched th t (robot_states s)),
                put := put s @ (if zenoh_session s
                                then map (offline_put t) (switched th t (robot_states s)) else [])\<rparr>"
proof -
  from assms(1) have free: "\<not> lock s" using sweep_Returns_unlocked by blast
  show ?thesis
  proof (cases "set (websocket_connections s) \<inter> set (closed s) = {}")
    case True
    from sweep_spec [OF free True assms(2), of th t ts] assms(1) show ?thesis by simp
  next
    case False
    show ?thesis
    proof (cases "\<exists>robot \<in> snd ` set (robot_states s). silent th t robot")
      case True
      from sweep_blocks [OF free False assms(2) True, of ts] assms(1) show ?thesis by simp
    next
      case quiet: False
      have "offline_loop t th ts (map fst (robot_states s)) [] (s\<lparr>lock := True\<rparr>) =
              (Returns [], s\<lparr>lock := True\<rparr>)"
        using assms(2) quiet by (intro offline_loop_quiet [of _ "[]"]) simp_all
      with free assms(1) have "s' = s" by (simp add: sweep_def unlock_free)
      with swept_quiet [OF quiet] show ?thesis
        by (simp add: offline_broadcasts_def)
    qed
  qed
qed

subsection \<open>The registry keeps distinct keys\<close>

lemma update_robot_state_distinct:
  "distinct (map fst (robot_states s)) \<Longrightarrow>
     distinct (map fst (robot_states (snd (update_robot_state rid st d now ts s))))"
  by (cases "lock s")
     (simp_all add: update_robot_state_registry distinct_update, simp add: update_robot_state_def)

lemma offline_loop_keys:
  "offline_loop t th ts ks acc s = (r, s') \<Longrightarrow>
     map fst (robot_states s') = map fst (robot_states s)"
proof (induction ks arbitrary: acc s)
  case Nil
  then show ?case by simp
next
  case (Cons k ks)
  show ?case
  proof (cases "map_of (robot_states s) k")
    case None
    with Cons.prems have "offline_loop t th ts ks acc s = (r, s')" by simp
    from Cons.IH [OF this] show ?thesis .
  next
    case (Some robot)
    then have mem: "k \<in> set (map fst (robot_states s))"
      by (metis map_of_eq_None_iff option.distinct(1) set_map)
    show ?thesis
    proof (cases "silent th t robot")
      case False
      with Cons.prems have "offline_loop t th ts ks acc s = (r, s')"
        by (simp add: offline_loop_Cons [OF Some] del: offline_loop.simps)
      from Cons.IH [OF this] show ?thesis .
    next
      case True
      let ?s1 = "s\<lparr>robot_states :=
                    AList.update k (robot\<lparr>status := JStr ''OFFLINE''\<rparr>) (robot_states s)\<rparr>"
      obtain r1 s2 where b: "broadcast_update k ''status'' (JStr ''OFFLINE'') ts ?s1 = (r1, s2)"
        by (cases "broadcast_update k ''status'' (JStr ''OFFLINE'') ts ?s1")
      from broadcast_update_frame [OF b] mem
      have keys: "map fst (robot_states s2) = map fst (robot_states s)"
        by (simp add: update_keys)
      show ?thesis
      proof (cases r1)
        case (Returns u)
        with True b Cons.prems have "offline_loop t th ts ks (acc @ [k]) s2 = (r, s')"
          by (simp add: offline_loop_Cons [OF Some] del: offline_loop.simps)
        from Cons.IH [OF this] keys show ?thesis by simp
      next
        case (Raises e)
        with True b Cons.prems keys show ?thesis
          by (auto simp: offline_loop_Cons [OF Some] simp del: offline_loop.simps)
      next
        case Blocks
        with True b Cons.prems keys show ?thesis
          by (auto simp: offline_loop_Cons [OF Some] simp del: offline_loop.simps)
      qed
    qed
  qed
qed

lemma sweep_keys:
  "map fst (robot_states (snd (sweep th t ts s))) = map fst (robot_states s)"
proof (cases "lock s")
  case True
  then show ?thesis by (simp add: sweep_def)
next
  case False
  obtain r1 s1 where ol:
    "offline_loop t th ts (map fst (robot_states s)) [] (s\<lparr>lock := True\<rparr>) = (r1, s1)"
    by (cases "offline_loop t th ts (map fst (robot_states s)) [] (s\<lparr>lock := True\<rparr>)")
  from offline_loop_keys [OF ol] ol False show ?thesis
    by (cases r1) (simp_all add: sweep_def publish_offline_frame)
qed

text \<open>
  Every state a run reaches from a registry with distinct keys, and so every state reached
  from the initial one, has a registry with distinct keys.
\<close>

lemma run_distinct:
  "distinct (map fst (robot_states s)) \<Longrightarrow> distinct (map fst (robot_states (snd (run es s))))"
proof (induction es arbitrary: s)
  case Nil
  then show ?case by simp
next
  case (Cons e es)
  have d: "distinct (map fst (robot_states (snd (step e s))))"
    using Cons.prems by (cases e) (simp_all add: update_robot_state_distinct sweep_keys)
  obtain r1 s1 where st: "step e s = (r1, s1)" by (cases "step e s")
  with d Cons.IH [of s1] show ?case by (cases r1) simp_all
qed

lemma init_server_distinct: "distinct (map fst (robot_states init_server))"
  by (simp add: init_server_def)

subsection \<open>Counting offline transitions\<close>

lemma offline_event_robot_put: "offline_event_robot (offline_put t rid) = Some rid"
  by (simp add: offline_event_robot_def offline_put_def)

lemma count_offline_puts:
  "count_list (map offline_event_robot (map (offline_put t) rids)) (Some rid) = count_list rids rid"
  by (induction rids) (simp_all add: offline_event_robot_put)

lemma offline_envelope_robot_msg:
  "offline_envelope_robot (state_update_msg rid ''status'' (JStr ''OFFLINE'') ts) = Some rid"
  by (simp add: offline_envelope_robot_def state_update_msg_def)

lemma count_envelopes_one:
  "count_list (map ((\<lambda>(c', m). (c', offline_envelope_robot m))
                     \<circ> (\<lambda>c. (c, state_update_msg k ''status'' (JStr ''OFFLINE'') ts)))
                observers) (c, Some rid) =
     (if k = rid then count_list observers c else 0)"
  by (induction observers) (auto simp: offline_envelope_robot_msg)

lemma count_offline_broadcasts:
  "count_list (map (\<lambda>(c', m). (c', offline_envelope_robot m))
       (offline_broadcasts ts observers rids)) (c, Some rid) =
     count_list rids rid * count_list observers c"
  by (induction rids) (simp_all add: offline_broadcasts_def count_envelopes_one)

lemma count_switched:
  "distinct (map fst rs) \<Longrightarrow> map_of rs rid = Some r \<Longrightarrow>
     count_list (switched th t rs) rid = (if silent th t r then 1 else 0)"
proof (induction rs)
  case Nil
  then show ?case by simp
next
  case (Cons kr rs)
  obtain k r' where kr: "kr = (k, r')" by (cases kr)
  show ?case
  proof (cases "k = rid")
    case True
    with Cons.prems kr have "r' = r" and "rid \<notin> fst ` set rs" by auto
    then have "count_list (switched th t rs) rid = 0"
      by (auto simp: switched_def count_list_0_iff)
    with True kr \<open>r' = r\<close> show ?thesis by (simp add: switched_def)
  next
    case False
    with Cons kr show ?thesis by (simp add: switched_def)
  qed
qed

lemma swept_status_OFFLINE: "status r = JStr ''OFFLINE'' \<Longrightarrow> swept th t r = r"
  by (simp add: swept_def silent_def)

lemma swept_silent: "silent th t r \<Longrightarrow> swept th t r = r\<lparr>status := JStr ''OFFLINE''\<rparr>"
  by (simp add: swept_def)

lemma map_fst_swept: "map fst (map (\<lambda>(rid, robot). (rid, f robot)) rs) = map fst rs"
  by (induction rs) auto

lemma map_of_swept:
  "map_of (map (\<lambda>(rid, robot). (rid, f robot)) rs) rid = map_option f (map_of rs rid)"
  by (induction rs) auto

lemma sweep_counts:
  assumes "\<not> lock s" and "set (websocket_connections s) \<inter> set (closed s) = {}"
    and "distinct (map fst (robot_states s))" and "zenoh_session s"
    and "map_of (robot_states s) rid = Some r"
  shows "\<exists>s'. sweep th t ts s = (Returns (), s')
          \<and> \<not> lock s' \<and> set (websocket_connections s') \<inter> set (closed s') = {}
          \<and> websocket_connections s' = websocket_connections s
          \<and> distinct (map fst (robot_states s')) \<and> zenoh_session s'
          \<and> map_of (robot_states s') rid = Some (swept th t r)
          \<and> offline_events rid s' = offline_events rid s + (if silent th t r then 1 else 0)
          \<and> (\<forall>c. offline_envelopes c rid s' =
                    offline_envelopes c rid s
                    + (if silent th t r then count_list (websocket_connections s) c else 0))"
proof -
  let ?s' = "s\<lparr>robot_states := map (\<lambda>(rid, robot). (rid, swept th t robot)) (robot_states s),
              sent := sent s @ offline_broadcasts ts (websocket_connections s)
                                 (switched th t (robot_states s)),
              put := put s @ (if zenoh_session s
                              then map (offline_put t) (switched th t (robot_states s)) else [])\<rparr>"
  have sp: "sweep th t ts s = (Returns (), ?s')"
    by (rule sweep_spec [OF assms(1-3)])
  have c1: "count_list (switched th t (robot_states s)) rid = (if silent th t r then 1 else 0)"
    by (rule count_switched [OF assms(3,5)])
  have ev: "offline_events rid ?s' = offline_events rid s + (if silent th t r then 1 else 0)"
    using assms(4) by (simp add: offline_events_def count_offline_puts c1 del: map_map)
  have en: "offline_envelopes c rid ?s' =
              offline_envelopes c rid s
              + (if silent th t r then count_list (websocket_connections s) c else 0)" for c
    by (simp add: offline_envelopes_def count_offline_broadcasts c1 del: map_map)
  have d: "distinct (map fst (robot_states ?s'))"
    using assms(3) by (simp add: map_fst_swept del: map_map)
  have m: "map_of (robot_states ?s') rid = Some (swept th t r)"
    by (simp add: map_of_swept assms(5))
  have fr: "\<not> lock ?s'" "set (websocket_connections ?s') \<inter> set (closed ?s') = {}"
    "websocket_connections ?s' = websocket_connections s" "zenoh_session ?s'"
    using assms(1,2,4) by simp_all
  from sp fr d m ev en show ?thesis by blast
qed

text \<open>Sweeps leave a robot that is \<^verbatim>\<open>"OFFLINE"\<close> alone, however many of them run.\<close>

lemma check_offline_robots_offline:
  assumes "\<not> lock s" and "set (websocket_connections s) \<inter> set (closed s) = {}"
    and "distinct (map fst (robot_states s))" and "zenoh_session s"
    and "map_of (robot_states s) rid = Some r" and "status r = JStr ''OFFLINE''"
  shows "\<exists>s'. check_offline_robots th readings s = (Returns (), s')
          \<and> map_of (robot_states s') rid = Some r
          \<and> offline_events rid s' = offline_events rid s
          \<and> (\<forall>c. offline_envelopes c rid s' = offline_envelopes c rid s)"
  using assms
proof (induction readings arbitrary: s)
  case Nil
  then show ?case by simp
next
  case (Cons reading readings)
  obtain t ts where reading: "reading = (t, ts)" by (cases reading)
  from Cons.prems(6) have quiet: "\<not> silent th t r" "swept th t r = r"
    by (simp_all add: silent_def swept_def)
  from sweep_counts [OF Cons.prems(1-5), of th t ts] quiet
  obtain s1 where s1: "sweep th t ts s = (Returns (), s1)" "\<not> lock s1"
      "set (websocket_connections s1) \<inter> set (closed s1) = {}"
      "distinct (map fst (robot_states s1))" "zenoh_session s1"
      "map_of (robot_states s1) rid = Some r"
      "offline_events rid s1 = offline_events rid s"
      "\<forall>c. offline_envelopes c rid s1 = offline_envelopes c rid s"
    by auto
  from Cons.IH [OF s1(2-6) Cons.prems(6)] s1(1,7,8) reading show ?case by simp
qed

text \<open>
  While no observer is closed, the liveness loop does what C3 says. A robot that is not
  \<^verbatim>\<open>"OFFLINE"\<close> and whose silence exceeds the threshold at every sweep is switched
  to \<^verbatim>\<open>"OFFLINE"\<close>; over any positive number of sweeps exactly one
  \<^verbatim>\<open>robot_offline\<close> event is put on the bus for it and every registered observer is
  sent exactly one offline envelope for it.
\<close>

lemma check_offline_robots_once:
  assumes "\<not> lock s" and "set (websocket_connections s) \<inter> set (closed s) = {}"
    and "distinct (map fst (robot_states s))" and "zenoh_session s"
    and "map_of (robot_states s) rid = Some r" and "status r \<noteq> JStr ''OFFLINE''"
    and "readings \<noteq> []" and "\<forall>(t, ts) \<in> set readings. t - last_seen r > th"
  shows "\<exists>s'. check_offline_robots th readings s = (Returns (), s')
          \<and> map_option status (map_of (robot_states s') rid) = Some (JStr ''OFFLINE'')
          \<and> offline_events rid s' = offline_events rid s + 1
          \<and> (\<forall>c. offline_envelopes c rid s' =
                    offline_envelopes c rid s + count_list (websocket_connections s) c)"
proof -
  from assms(7) obtain t ts rest where readings: "readings = (t, ts) # rest"
    by (cases readings) auto
  with assms(6,8) have sil: "silent th t r" by (simp add: silent_def)
  then have sw: "swept th t r = r\<lparr>status := JStr ''OFFLINE''\<rparr>" by (rule swept_silent)
  from sweep_counts [OF assms(1-5), of th t ts] sil sw
  obtain s1 where s1: "sweep th t ts s = (Returns (), s1)" "\<not> lock s1"
      "set (websocket_connections s1) \<inter> set (closed s1) = {}"
      "websocket_connections s1 = websocket_connections s"
      "distinct (map fst (robot_states s1))" "zenoh_session s1"
      "map_of (robot_states s1) rid = Some (r\<lparr>status := JStr ''OFFLINE''\<rparr>)"
      "offline_events rid s1 = offline_events rid s + 1"
      "\<forall>c. offline_envelopes c rid s1 =
             offline_envelopes c rid s + count_list (websocket_connections s) c"
    by auto
  have "status (r\<lparr>status := JStr ''OFFLINE''\<rparr>) = JStr ''OFFLINE''" by simp
  from check_offline_robots_offline [OF s1(2,3,5,6,7) this, of th rest]
  obtain s' where "check_offline_robots th rest s1 = (Returns (), s')"
      "map_of (robot_states s') rid = Some (r\<lparr>status := JStr ''OFFLINE''\<rparr>)"
      "offline_events rid s' = offline_events rid s1"
      "\<forall>c. offline_envelopes c rid s' = offline_envelopes c rid s1"
    by blast
  with s1(1,8,9) readings show ?thesis by simp
qed

subsection \<open>Closed observers, and the keys of the bus\<close>

text \<open>
  C7 fails as soon as one send raises. Here an update is ingested while the first of two
  observers is closed: \<^verbatim>\<open>update_robot_state\<close> holds the lock when it calls
  \<^verbatim>\<open>broadcast_update\<close>, the send to the first observer raises, and
  \<^verbatim>\<open>remove_connection\<close> waits for that same lock. The broadcast never returns, the
  closed observer is still registered, the second observer has been sent nothing, and the
  lock stays taken, so every later operation on the manager waits as well.
\<close>

theorem broadcast_update_closed_observer_blocks:
  "fst (update_robot_state ''r1'' ''pose'' (JDict [(''x'', JNum 1)]) 10 10 first_observer_closed)
     = Blocks
   \<and> websocket_connections
        (snd (update_robot_state ''r1'' ''pose'' (JDict [(''x'', JNum 1)]) 10 10
                first_observer_closed)) = [1, 2]
   \<and> sent (snd (update_robot_state ''r1'' ''pose'' (JDict [(''x'', JNum 1)]) 10 10
                   first_observer_closed)) = []
   \<and> lock (snd (update_robot_state ''r1'' ''pose'' (JDict [(''x'', JNum 1)]) 10 10
                   first_observer_closed))
   \<and> fst (remove_connection 1
            (snd (update_robot_state ''r1'' ''pose'' (JDict [(''x'', JNum 1)]) 10 10
                    first_observer_closed))) = Blocks"
  by code_simp

text \<open>
  Called with the lock free, which no caller in the source does, the broadcast would
  remove the closed observer, and the removal under the running loop would make the loop
  skip the observer that follows it.
\<close>

lemma broadcast_update_unlocked_skips:
  "broadcast_update ''r1'' ''pose'' JNull 10
     (first_observer_closed\<lparr>websocket_connections := [1, 2, 3]\<rparr>) =
   (Returns (),
    first_observer_closed\<lparr>websocket_connections := [2, 3],
                          sent := [(3, state_update_msg ''r1'' ''pose'' JNull 10)]\<rparr>)"
  by code_simp

text \<open>
  C3 fails when an observer is closed at the time of the switch. Threshold 5, robot
  \<^verbatim>\<open>r2\<close> last seen at 0, sweeps at 6 and 7: the first sweep sets the status to
  \<^verbatim>\<open>"OFFLINE"\<close> and waits forever inside its broadcast, before the loop that
  publishes the events; no \<^verbatim>\<open>robot_offline\<close> event is ever put on the bus.
\<close>

theorem check_offline_robots_closed_observer_blocks:
  "fst (check_offline_robots 5 [(6, 6), (7, 7)] silent_r2_closed_observer) = Blocks
   \<and> map_option status
        (map_of (robot_states (snd (check_offline_robots 5 [(6, 6), (7, 7)]
                                      silent_r2_closed_observer))) ''r2'') = Some (JStr ''OFFLINE'')
   \<and> put (snd (check_offline_robots 5 [(6, 6), (7, 7)] silent_r2_closed_observer)) = []
   \<and> offline_events ''r2''
        (snd (check_offline_robots 5 [(6, 6), (7, 7)] silent_r2_closed_observer)) = 0"
  by code_simp

text \<open>
  C9, as the code has it: the topics start with \<^verbatim>\<open>fms\<close>. The subscription is
  \<^verbatim>\<open>fms/robot/*/state/**\<close>. A key \<^verbatim>\<open>fms/robot/<id>/state/<category>\<close>, where the
  id has no slash and the category may have several segments, is parsed into that id and
  that category, and a report that arrives on it is applied to that robot under that
  category. A sweep that returns has put on the bus, the session being open, one message
  for each robot it switched, in the order of the registry: on
  \<^verbatim>\<open>fms/system/event/robot_offline\<close>, with a payload that holds the robot's id and
  the sweep's clock reading.
\<close>

theorem bus_keys:
  assumes "CHR ''/'' \<notin> set rid"
    and "sweep th t ts' s' = (Returns (), s'')" and "zenoh_session s'"
    and "distinct (map fst (robot_states s'))"
  shows "state_subscription = ''fms/robot/*/state/**''
       \<and> parse_key (''fms/robot/'' @ rid @ ''/state/'' @ category) = Some (rid, category)
       \<and> callback (''fms/robot/'' @ rid @ ''/state/'' @ category) (Some data) now ts s =
           update_robot_state rid category data now ts s
       \<and> put s'' =
           put s' @ map (\<lambda>rid. \<lparr>put_key = ''fms/system/event/robot_offline'',
                                put_payload = JDict [(''robot_id'', JStr rid), (''timestamp'', JNum t)],
                                put_priority = DEFAULT\<rparr>)
                      (switched th t (robot_states s'))"
proof -
  have "put s'' = put s' @ map (offline_put t) (switched th t (robot_states s'))"
    using assms(3) by (simp add: sweep_Returns_spec [OF assms(2,4)])
  then have "put s'' =
           put s' @ map (\<lambda>rid. \<lparr>put_key = ''fms/system/event/robot_offline'',
                                put_payload = JDict [(''robot_id'', JStr rid), (''timestamp'', JNum t)],
                                put_priority = DEFAULT\<rparr>)
                      (switched th t (robot_states s'))"
    by (simp add: offline_put_def)
  moreover have "state_subscription = ''fms/robot/*/state/**''"
    by (simp add: state_subscription_def)
  moreover note parse_key_state [OF assms(1), of category]
    callback_state [OF assms(1), of category data now ts s]
  ultimately show ?thesis by blast
qed

theorem bus_keys_witness:
  "CHR ''/'' \<notin> set ''r1''
   \<and> sweep 5 6 6 silent_r2 = (Returns (), snd (sweep 5 6 6 silent_r2))
   \<and> zenoh_session silent_r2
   \<and> distinct (map fst (robot_states silent_r2))
   \<and> parse_key ''fms/robot/r1/state/task/progress'' = Some (''r1'', ''task/progress'')
   \<and> callback ''fms/robot/r1/state/task/progress'' (Some (JNum 40)) 3 4 silent_r2 =
        update_robot_state ''r1'' ''task/progress'' (JNum 40) 3 4 silent_r2
   \<and> switched 5 6 (robot_states silent_r2) = [''r2'']
   \<and> put (snd (sweep 5 6 6 silent_r2)) =
        [\<lparr>put_key = ''fms/system/event/robot_offline'',
          put_payload = JDict [(''robot_id'', JStr ''r2''), (''timestamp'', JNum 6)],
          put_priority = DEFAULT\<rparr>]"
proof -
  have h1: "CHR ''/'' \<notin> set ''r1''" by simp
  have h2: "sweep 5 6 6 silent_r2 = (Returns (), snd (sweep 5 6 6 silent_r2))" by code_simp
  have h3: "zenoh_session silent_r2" "distinct (map fst (robot_states silent_r2))"
    by (simp_all add: silent_r2_def)
  have sw: "switched 5 6 (robot_states silent_r2) = [''r2'']"
    by (simp add: switched_def silent_def silent_r2_def)
  from bus_keys [OF h1 h2 h3, of "''task/progress''" "JNum 40" 3 4 silent_r2] h1 h2 h3 sw
  show ?thesis by (simp add: silent_r2_def)
qed

text \<open>
  C9 fails as written: nothing is subscribed or published under \<^verbatim>\<open>fleet\<close>. The
  subscription is not \<^verbatim>\<open>fleet/robot/*/state/**\<close>, a report on
  \<^verbatim>\<open>fleet/robot/r1/state/pose\<close> is dropped, and the event of a sweep is on
  \<^verbatim>\<open>fms/system/event/robot_offline\<close>.
\<close>

theorem bus_keys_fleet_counterexample:
  "state_subscription \<noteq> ''fleet/robot/*/state/**''
   \<and> parse_key ''fleet/robot/r1/state/pose'' = None
   \<and> map put_key (put (snd (sweep 5 6 6 silent_r2))) = [''fms/system/event/robot_offline'']
   \<and> ''fms/system/event/robot_offline'' \<noteq> ''fleet/system/event/robot_offline''"
  by code_simp

end
